theory Spec2Isabelle
  imports Complex_Main "HOL-Library.Sublist"
begin

section \<open>Python strings\<close>

text \<open>
  A Python \<^verbatim>\<open>str\<close> is a sequence of Unicode code points; \<^verbatim>\<open>len\<close>, slicing and
  \<^verbatim>\<open>replace\<close> count code points. A string is therefore modelled as a list of code
  points (natural numbers), and ASCII literals of the source are written through
  \<open>ustr\<close>.
\<close>

type_synonym ustring = "nat list"

definition ustr :: "string \<Rightarrow> ustring" where
  "ustr s = map of_char s"

text \<open>
  \<^verbatim>\<open>str.isspace\<close> on one code point, which is what \<^verbatim>\<open>str.strip()\<close> with no argument
  uses: U+0009..U+000D, U+001C..U+0020, U+0085, U+00A0, U+1680, U+2000..U+200A, U+2028,
  U+2029, U+202F, U+205F and U+3000.
\<close>

definition py_isspace :: "nat \<Rightarrow> bool" where
  "py_isspace c \<longleftrightarrow>
     (9 \<le> c \<and> c \<le> 13) \<or> (28 \<le> c \<and> c \<le> 32) \<or> c = 133 \<or> c = 160 \<or> c = 5760 \<or>
     (8192 \<le> c \<and> c \<le> 8202) \<or> c = 8232 \<or> c = 8233 \<or> c = 8239 \<or> c = 8287 \<or>
     c = 12288"

text \<open>\<^verbatim>\<open>s.strip()\<close>: leading and trailing whitespace removed.\<close>

definition py_strip :: "ustring \<Rightarrow> ustring" where
  "py_strip s = rev (dropWhile py_isspace (rev (dropWhile py_isspace s)))"

text \<open>
  \<^verbatim>\<open>s.replace(old, new)\<close>: every occurrence of \<open>old\<close> found by a left-to-right scan
  that resumes after each replaced occurrence. With an empty \<open>old\<close>, Python inserts
  \<open>new\<close> before every code point and at the end.
\<close>

fun py_replace :: "ustring \<Rightarrow> ustring \<Rightarrow> ustring \<Rightarrow> ustring" where
  "py_replace old new [] = (if old = [] then new else [])"
| "py_replace old new (c # cs) =
     (if old = [] then new @ c # py_replace old new cs
      else if prefix old (c # cs)
        then new @ py_replace old new (drop (length old - 1) cs)
        else c # py_replace old new cs)"

section \<open>Filename sanitization\<close>

text \<open>
  \<^verbatim>\<open>invalid_chars = '<>:"/\\|?*'\<close>, as code points: \<^verbatim>\<open>< > : " / \ | ? *\<close>.
\<close>

definition invalid_chars :: "ustring" where
  "invalid_chars = [60, 62, 58, 34, 47, 92, 124, 63, 42]"

text \<open>The underscore \<^verbatim>\<open>'_'\<close>.\<close>

definition underscore :: "nat" where
  "underscore = 95"

text \<open>
  \<^verbatim>\<open>for char in invalid_chars: filename = filename.replace(char, '_')\<close>
\<close>

definition replace_invalid :: "ustring \<Rightarrow> ustring" where
  "replace_invalid filename =
     foldl (\<lambda>f char. py_replace [char] [underscore] f) filename invalid_chars"

text \<open>
  \<^verbatim>\<open>_sanitize_filename\<close>: replace the invalid characters, then
  \<^verbatim>\<open>filename.strip()[:100]\<close>, then \<^verbatim>\<open>filename or "Unknown_Playlist"\<close>.
\<close>

definition sanitize_filename :: "ustring \<Rightarrow> ustring" where
  "sanitize_filename filename =
     (let filename1 = replace_invalid filename;
          filename2 = take 100 (py_strip filename1)
      in if filename2 = [] then ustr ''Unknown_Playlist'' else filename2)"

section \<open>Regular expressions\<close>

text \<open>
  The patterns of the source use only literals, character classes, alternation, optional
  groups, \<^verbatim>\<open>+\<close>, \<^verbatim>\<open>*\<close> and a bounded repetition; they have no backreference and no
  lookaround, so whether Python's \<^verbatim>\<open>re\<close> finds a match is whether some substring belongs
  to the pattern's language. The matcher below decides this with derivatives.
\<close>

datatype rexp =
    Nothing
  | Empty
  | Sym "nat \<Rightarrow> bool"
  | Alt rexp rexp
  | Cat rexp rexp
  | Star rexp

fun nullable :: "rexp \<Rightarrow> bool" where
  "nullable Nothing = False"
| "nullable Empty = True"
| "nullable (Sym p) = False"
| "nullable (Alt a b) = (nullable a \<or> nullable b)"
| "nullable (Cat a b) = (nullable a \<and> nullable b)"
| "nullable (Star a) = True"

text \<open>Constructors that drop the branches which can no longer match.\<close>

fun alt :: "rexp \<Rightarrow> rexp \<Rightarrow> rexp" where
  "alt Nothing b = b"
| "alt a Nothing = a"
| "alt a b = Alt a b"

fun cat :: "rexp \<Rightarrow> rexp \<Rightarrow> rexp" where
  "cat Nothing b = Nothing"
| "cat Empty b = b"
| "cat a b = Cat a b"

fun deriv :: "nat \<Rightarrow> rexp \<Rightarrow> rexp" where
  "deriv c Nothing = Nothing"
| "deriv c Empty = Nothing"
| "deriv c (Sym p) = (if p c then Empty else Nothing)"
| "deriv c (Alt a b) = alt (deriv c a) (deriv c b)"
| "deriv c (Cat a b) =
     (if nullable a then alt (cat (deriv c a) b) (deriv c b) else cat (deriv c a) b)"
| "deriv c (Star a) = cat (deriv c a) (Star a)"

text \<open>\<^verbatim>\<open>pattern.match(s) is not None\<close>: some prefix of \<open>s\<close> matches.\<close>

fun re_match :: "rexp \<Rightarrow> ustring \<Rightarrow> bool" where
  "re_match Nothing s = False"
| "re_match r [] = nullable r"
| "re_match r (c # cs) = (if nullable r then True else re_match (deriv c r) cs)"

text \<open>\<^verbatim>\<open>re.search(pattern, s)\<close> finds a match: a match starts at some position of \<open>s\<close>.\<close>

fun re_search :: "rexp \<Rightarrow> ustring \<Rightarrow> bool" where
  "re_search r [] = re_match r []"
| "re_search r (c # cs) = (if re_match r (c # cs) then True else re_search r cs)"

text \<open>
  The language of a pattern: the strings it matches as a whole. The matcher is proved
  against it below (\<open>re_match_lang\<close>, \<open>re_search_lang\<close>).
\<close>

inductive_set star :: "ustring set \<Rightarrow> ustring set" for L :: "ustring set" where
  star_nil: "[] \<in> star L"
| star_app: "u \<in> L \<Longrightarrow> v \<in> star L \<Longrightarrow> u @ v \<in> star L"

fun lang :: "rexp \<Rightarrow> ustring set" where
  "lang Nothing = {}"
| "lang Empty = {[]}"
| "lang (Sym p) = {[c] | c. p c}"
| "lang (Alt a b) = lang a \<union> lang b"
| "lang (Cat a b) = {u @ v | u v. u \<in> lang a \<and> v \<in> lang b}"
| "lang (Star a) = star (lang a)"

text \<open>The pieces of pattern syntax the source uses.\<close>

definition literal :: "string \<Rightarrow> rexp" where
  "literal s = foldr (\<lambda>c r. Cat (Sym (\<lambda>x. x = of_char c)) r) s Empty"

definition optional :: "rexp \<Rightarrow> rexp" where
  "optional r = Alt r Empty"

definition one_or_more :: "rexp \<Rightarrow> rexp" where
  "one_or_more r = Cat r (Star r)"

fun repeat_n :: "nat \<Rightarrow> rexp \<Rightarrow> rexp" where
  "repeat_n 0 r = Empty"
| "repeat_n (Suc n) r = Cat r (repeat_n n r)"

text \<open>\<^verbatim>\<open>.\<close> matches every code point but the newline.\<close>

definition any_char :: "rexp" where
  "any_char = Sym (\<lambda>c. c \<noteq> 10)"

definition one_of :: "string \<Rightarrow> rexp" where
  "one_of s = Sym (\<lambda>c. c \<in> set (ustr s))"

definition none_of :: "string \<Rightarrow> rexp" where
  "none_of s = Sym (\<lambda>c. c \<notin> set (ustr s))"

text \<open>\<^verbatim>\<open>[a-zA-Z0-9_-]\<close>\<close>

definition id_char :: "rexp" where
  "id_char = Sym (\<lambda>c. (97 \<le> c \<and> c \<le> 122) \<or> (65 \<le> c \<and> c \<le> 90) \<or> (48 \<le> c \<and> c \<le> 57)
                      \<or> c = 95 \<or> c = 45)"

section \<open>URL validation\<close>

text \<open>
  \<^verbatim>\<open>(https?://)?(www\.)?(youtube|youtu|youtube-nocookie)\.(com|be)/\<close>
  \<^verbatim>\<open>(watch\?v=|embed/|v/|.+\?v=)?([^&=%\?]{11})\<close>
\<close>

definition youtube_regex :: "rexp" where
  "youtube_regex =
     Cat (optional (Cat (literal ''http'') (Cat (optional (literal ''s'')) (literal ''://''))))
    (Cat (optional (literal ''www.''))
    (Cat (Alt (literal ''youtube'') (Alt (literal ''youtu'') (literal ''youtube-nocookie'')))
    (Cat (literal ''.'')
    (Cat (Alt (literal ''com'') (literal ''be''))
    (Cat (literal ''/'')
    (Cat (optional (Alt (literal ''watch?v='') (Alt (literal ''embed/'') (Alt (literal ''v/'')
                 (Cat (one_or_more any_char) (literal ''?v=''))))))
         (repeat_n 11 (none_of ''&=%?''))))))))"

definition is_valid_youtube_url :: "ustring \<Rightarrow> bool" where
  "is_valid_youtube_url url = re_match youtube_regex url"

text \<open>
  \<^verbatim>\<open>[&?]list=([a-zA-Z0-9_-]+)\<close>,
  \<^verbatim>\<open>youtube\.com/playlist\?list=([a-zA-Z0-9_-]+)\<close> and
  \<^verbatim>\<open>youtube\.com/watch\?.*list=([a-zA-Z0-9_-]+)\<close>
\<close>

definition playlist_patterns :: "rexp list" where
  "playlist_patterns =
     [Cat (one_of ''&?'') (Cat (literal ''list='') (one_or_more id_char)),
      Cat (literal ''youtube.com/playlist?list='') (one_or_more id_char),
      Cat (literal ''youtube.com/watch?'')
        (Cat (Star any_char) (Cat (literal ''list='') (one_or_more id_char)))]"

definition is_playlist_url :: "ustring \<Rightarrow> bool" where
  "is_playlist_url url = list_ex (\<lambda>pattern. re_search pattern url) playlist_patterns"

section \<open>Exceptions, paths and the downloader instance\<close>

text \<open>
  The exception classes the source raises or tells apart in its handlers, each with its
  message. \<^verbatim>\<open>ValueError\<close>, \<^verbatim>\<open>DownloadError\<close>, \<^verbatim>\<open>FileNotFoundError\<close> and \<^verbatim>\<open>OverflowError\<close>
  (which \<^verbatim>\<open>time.sleep\<close> raises for a delay beyond the range of the platform's timer) are
  subclasses of \<^verbatim>\<open>Exception\<close>; the constructor \<open>Exception\<close> stands for \<^verbatim>\<open>Exception\<close> itself
  and for every other subclass of it (such as the \<^verbatim>\<open>BrokenPipeError\<close> of a \<^verbatim>\<open>print\<close> to a
  closed pipe). \<^verbatim>\<open>KeyboardInterrupt\<close> derives from \<^verbatim>\<open>BaseException\<close> and is not an
  \<^verbatim>\<open>Exception\<close>: no handler of the source catches it.
\<close>

datatype exn =
    ValueError string
  | DownloadError string
  | FileNotFoundError string
  | OverflowError string
  | Exception string
  | KeyboardInterrupt

text \<open>\<^verbatim>\<open>str(e)\<close>\<close>

fun str_exn :: "exn \<Rightarrow> string" where
  "str_exn (ValueError m) = m"
| "str_exn (DownloadError m) = m"
| "str_exn (FileNotFoundError m) = m"
| "str_exn (OverflowError m) = m"
| "str_exn (Exception m) = m"
| "str_exn KeyboardInterrupt = []"

text \<open>\<^verbatim>\<open>isinstance(e, Exception)\<close>: what a clause \<^verbatim>\<open>except Exception\<close> catches.\<close>

fun is_exception :: "exn \<Rightarrow> bool" where
  "is_exception KeyboardInterrupt = False"
| "is_exception e = True"

text \<open>
  A path is its list of components. \<^verbatim>\<open>p / name\<close> is only applied to names without a
  separator (sanitized names and fixed templates); \<^verbatim>\<open>pathlib\<close> drops an empty or
  \<^verbatim>\<open>'.'\<close> component.
\<close>

type_synonym path = "ustring list"

definition path_join :: "path \<Rightarrow> ustring \<Rightarrow> path" where
  "path_join p name = (if name = [] \<or> name = ustr ''.'' then p else p @ [name])"

text \<open>
  The mutable fields of a \<^verbatim>\<open>YouTubeAudioDownloader\<close>: \<^verbatim>\<open>self.output_dir\<close>,
  \<^verbatim>\<open>self.ydl_opts['outtmpl']\<close> and \<^verbatim>\<open>self.ydl_opts['ffmpeg_location']\<close>; the other
  options are constants.
\<close>

record downloader =
  output_dir :: path
  outtmpl :: path
  ffmpeg_location :: string

text \<open>\<^verbatim>\<open>str(output_dir / '%(title)s.%(ext)s')\<close>\<close>

definition default_outtmpl :: "path \<Rightarrow> path" where
  "default_outtmpl dir = path_join dir (ustr ''%(title)s.%(ext)s'')"

subsection \<open>What the extractor returns\<close>

text \<open>
  The dictionaries returned by \<^verbatim>\<open>extract_info\<close>, with the keys the source reads. A field
  is \<open>None\<close> when the key is absent, which is what \<^verbatim>\<open>info.get(key, default)\<close> and
  \<^verbatim>\<open>'entries' not in info\<close> test. An element of \<^verbatim>\<open>entries\<close> is \<open>None\<close> for a private or
  deleted video and a dictionary with an \<^verbatim>\<open>id\<close> otherwise.
\<close>

record raw_video =
  rv_title :: "ustring option"
  rv_duration :: "int option"
  rv_uploader :: "ustring option"

record raw_entry =
  re_id :: ustring
  re_title :: "ustring option"
  re_duration :: "int option"
  re_uploader :: "ustring option"

record raw_playlist =
  rp_title :: "ustring option"
  rp_uploader :: "ustring option"
  rp_entries :: "raw_entry option list option"

text \<open>\<^verbatim>\<open>d.get(key, default)\<close>\<close>

definition dict_get :: "'a option \<Rightarrow> 'a \<Rightarrow> 'a" where
  "dict_get field dflt = (case field of None \<Rightarrow> dflt | Some v \<Rightarrow> v)"

subsection \<open>The outside world\<close>

text \<open>
  The extractor, the filesystem, the clock and the standard output are reached through an
  environment whose operations read and change a world \<open>'w\<close>, so that the same call may
  succeed once and fail later. A result \<open>Inl e\<close> (or \<open>Some e\<close>) is the exception the call
  raises: an error of the operation itself, or an interrupt that arrives while it runs.
  \<open>print_out\<close> is one call of \<^verbatim>\<open>print\<close> (the text written is not modelled, only whether the
  call returns); \<open>sleep\<close> is \<^verbatim>\<open>time.sleep\<close>.
\<close>

record 'w env =
  which_ffmpeg :: "'w \<Rightarrow> string option"
  os_path_exists :: "'w \<Rightarrow> string \<Rightarrow> bool"
  mkdir :: "'w \<Rightarrow> path \<Rightarrow> exn option \<times> 'w"
  ydl_video_info :: "'w \<Rightarrow> ustring \<Rightarrow> (exn + raw_video) \<times> 'w"
  ydl_playlist_info :: "'w \<Rightarrow> ustring \<Rightarrow> (exn + raw_playlist) \<times> 'w"
  ydl_download :: "'w \<Rightarrow> path \<Rightarrow> ustring \<Rightarrow> exn option \<times> 'w"
  path_exists :: "'w \<Rightarrow> path \<Rightarrow> bool"
  glob_mp3 :: "'w \<Rightarrow> path \<Rightarrow> path list"
  getctime :: "'w \<Rightarrow> path \<Rightarrow> int"
  sleep :: "'w \<Rightarrow> real \<Rightarrow> exn option \<times> 'w"
  print_out :: "'w \<Rightarrow> exn option \<times> 'w"

text \<open>\<open>k\<close> consecutive calls of \<^verbatim>\<open>print\<close>; the first one that raises ends the sequence.\<close>

fun print_n :: "'w env \<Rightarrow> nat \<Rightarrow> 'w \<Rightarrow> exn option \<times> 'w" where
  "print_n env 0 w = (None, w)"
| "print_n env (Suc k) w =
     (case print_out env w of
        (Some e, w1) \<Rightarrow> (Some e, w1)
      | (None, w1) \<Rightarrow> print_n env k w1)"

text \<open>
  The model records the calls that the claims count: each call of
  \<^verbatim>\<open>download_audio\<close> made by a batch loop, with the output directory in force, and each
  call of \<^verbatim>\<open>time.sleep\<close>.
\<close>

datatype event =
    Download ustring path
  | Suspend real

subsection \<open>Construction\<close>

text \<open>
  The well-known install locations; the two Windows paths are written with the backslash
  as the character \<open>0x5C\<close>.
\<close>

definition common_paths :: "string list" where
  "common_paths =
     [''/usr/local/bin/ffmpeg'', ''/usr/bin/ffmpeg'', ''/opt/homebrew/bin/ffmpeg'',
      ''C:'' @ CHR 0x5C # ''ffmpeg'' @ CHR 0x5C # ''bin'' @ CHR 0x5C # ''ffmpeg.exe'',
      ''C:'' @ CHR 0x5C # ''Program Files'' @ CHR 0x5C # ''ffmpeg'' @ CHR 0x5C # ''bin''
        @ CHR 0x5C # ''ffmpeg.exe'']"

text \<open>\<^verbatim>\<open>__init__\<close> (the message of the exception is shortened).\<close>

definition init :: "'w env \<Rightarrow> 'w \<Rightarrow> path \<Rightarrow> (exn + downloader) \<times> 'w" where
  "init env w dir =
     (case mkdir env w dir of
        (Some e, w1) \<Rightarrow> (Inl e, w1)
      | (None, w1) \<Rightarrow>
          (case (case which_ffmpeg env w1 of
                   Some p \<Rightarrow> Some p
                 | None \<Rightarrow> find (os_path_exists env w1) common_paths) of
             None \<Rightarrow> (Inl (Exception ''FFmpeg not found. Please install FFmpeg''), w1)
           | Some ffmpeg_path \<Rightarrow>
               (Inr \<lparr>output_dir = dir, outtmpl = default_outtmpl dir,
                     ffmpeg_location = ffmpeg_path\<rparr>, w1)))"

section \<open>Metadata queries\<close>

record video_info =
  vi_title :: ustring
  vi_duration :: int
  vi_uploader :: ustring

text \<open>
  \<^verbatim>\<open>get_video_info\<close>: every exception of the extractor that \<^verbatim>\<open>except Exception\<close> catches
  is wrapped; an interrupt passes.
\<close>

definition get_video_info :: "'w env \<Rightarrow> 'w \<Rightarrow> ustring \<Rightarrow> (exn + video_info) \<times> 'w" where
  "get_video_info env w url =
     (case ydl_video_info env w url of
        (Inl e, w1) \<Rightarrow>
          (if is_exception e
           then (Inl (Exception (''Failed to get video info: '' @ str_exn e)), w1)
           else (Inl e, w1))
      | (Inr info, w1) \<Rightarrow>
          (Inr \<lparr>vi_title = dict_get (rv_title info) (ustr ''Unknown''),
                vi_duration = dict_get (rv_duration info) 0,
                vi_uploader = dict_get (rv_uploader info) (ustr ''Unknown'')\<rparr>, w1))"

record video =
  v_url :: ustring
  v_title :: ustring
  v_duration :: int
  v_uploader :: ustring

record playlist_info =
  pl_title :: ustring
  pl_uploader :: ustring
  pl_video_count :: nat
  pl_videos :: "video list"

text \<open>The dictionary appended for one entry (lines 142 to 147).\<close>

definition video_of_entry :: "raw_entry \<Rightarrow> video" where
  "video_of_entry entry =
     \<lparr>v_url = ustr ''https://www.youtube.com/watch?v='' @ re_id entry,
      v_title = dict_get (re_title entry) (ustr ''Unknown Title''),
      v_duration = dict_get (re_duration entry) 0,
      v_uploader = dict_get (re_uploader entry) (ustr ''Unknown'')\<rparr>"

text \<open>
  \<^verbatim>\<open>for entry in info['entries']: if entry: videos.append(...)\<close>, with \<open>videos\<close> as
  accumulator.
\<close>

fun collect_videos :: "raw_entry option list \<Rightarrow> video list \<Rightarrow> video list" where
  "collect_videos [] videos = videos"
| "collect_videos (None # entries) videos = collect_videos entries videos"
| "collect_videos (Some entry # entries) videos =
     collect_videos entries (videos @ [video_of_entry entry])"

text \<open>
  \<^verbatim>\<open>get_playlist_info\<close>. The \<^verbatim>\<open>ValueError\<close> is raised before the \<^verbatim>\<open>try\<close>; inside it, the
  exception raised for a missing \<^verbatim>\<open>entries\<close> key is caught by the function's own handler
  and wrapped like those of the extractor; an interrupt passes.
\<close>

definition get_playlist_info ::
  "'w env \<Rightarrow> 'w \<Rightarrow> ustring \<Rightarrow> (exn + playlist_info) \<times> 'w" where
  "get_playlist_info env w url =
     (if \<not> is_playlist_url url then (Inl (ValueError ''URL is not a valid YouTube playlist''), w)
      else
        (case ydl_playlist_info env w url of
           (Inl e, w1) \<Rightarrow>
             (if is_exception e
              then (Inl (Exception (''Failed to get playlist info: '' @ str_exn e)), w1)
              else (Inl e, w1))
         | (Inr info, w1) \<Rightarrow>
             (case rp_entries info of
                None \<Rightarrow>
                  (Inl (Exception (''Failed to get playlist info: ''
                          @ str_exn (Exception ''No videos found in playlist''))), w1)
              | Some entries \<Rightarrow>
                  (let videos = collect_videos entries []
                   in (Inr \<lparr>pl_title = dict_get (rp_title info) (ustr ''Unknown Playlist''),
                            pl_uploader = dict_get (rp_uploader info) (ustr ''Unknown''),
                            pl_video_count = length videos,
                            pl_videos = videos\<rparr>, w1)))))"

section \<open>Downloading one item\<close>

text \<open>\<^verbatim>\<open>max(mp3_files, key=os.path.getctime)\<close>: the first file among the newest.\<close>

fun max_by :: "('a \<Rightarrow> int) \<Rightarrow> 'a \<Rightarrow> 'a list \<Rightarrow> 'a" where
  "max_by key best [] = best"
| "max_by key best (x # xs) = max_by key (if key best < key x then x else best) xs"

text \<open>
  Lines 178 to 187: the base name of the file to write. A given \<^verbatim>\<open>output_filename\<close> is
  used when it is truthy (not \<^verbatim>\<open>None\<close>, not empty), after
  \<^verbatim>\<open>output_filename.replace('.mp3', '')\<close>.
\<close>

definition target_base_name :: "ustring option \<Rightarrow> ustring \<Rightarrow> ustring" where
  "target_base_name output_filename safe_title =
     (case output_filename of
        None \<Rightarrow> safe_title
      | Some name \<Rightarrow>
          if name \<noteq> [] then
            (let base_name = py_replace (ustr ''.mp3'') [] name
             in sanitize_filename base_name)
          else safe_title)"

text \<open>Lines 220 and 221: the last \<^verbatim>\<open>print\<close> of \<^verbatim>\<open>download_audio\<close>, then the result.\<close>

definition report_success :: "'w env \<Rightarrow> path \<Rightarrow> 'w \<Rightarrow> (exn + path) \<times> 'w" where
  "report_success env final_path w =
     (case print_out env w of
        (Some e, w1) \<Rightarrow> (Inl e, w1)
      | (None, w1) \<Rightarrow> (Inr final_path, w1))"

text \<open>
  The body of the \<^verbatim>\<open>try\<close> of \<^verbatim>\<open>download_audio\<close>, with its calls of \<^verbatim>\<open>print\<close> (lines 169
  and 170, 192 and 193, 204 to 209, 216, 220). The extractor is given the options of the
  instance with \<^verbatim>\<open>outtmpl\<close> replaced; only that template varies and is passed on. The
  message of the exception raised when no file is found is shortened.
\<close>

definition download_audio_body ::
  "'w env \<Rightarrow> downloader \<Rightarrow> 'w \<Rightarrow> ustring \<Rightarrow> ustring option \<Rightarrow> (exn + path) \<times> 'w" where
  "download_audio_body env d w url output_filename =
     (case get_video_info env w url of
        (Inl e, w1) \<Rightarrow> (Inl e, w1)
      | (Inr info, w1) \<Rightarrow>
          (case print_n env 2 w1 of
             (Some e, w2) \<Rightarrow> (Inl e, w2)
           | (None, w2) \<Rightarrow>
               (let safe_title = sanitize_filename (vi_title info);
                    base = target_base_name output_filename safe_title;
                    current_outtmpl = path_join (output_dir d) (base @ ustr ''.%(ext)s'');
                    expected_final_name = base @ ustr ''.mp3''
                in case print_n env 2 w2 of
                     (Some e, w3) \<Rightarrow> (Inl e, w3)
                   | (None, w3) \<Rightarrow>
                       (case ydl_download env w3 current_outtmpl url of
                          (Some e, w4) \<Rightarrow> (Inl e, w4)
                        | (None, w4) \<Rightarrow>
                            (let final_path = path_join (output_dir d) expected_final_name
                             in if path_exists env w4 final_path
                                then report_success env final_path w4
                                else
                                  (case print_n env 3 w4 of
                                     (Some e, w5) \<Rightarrow> (Inl e, w5)
                                   | (None, w5) \<Rightarrow>
                                       (case glob_mp3 env w5 (output_dir d) of
                                          [] \<Rightarrow> (Inl (Exception ''No MP3 file found''), w5)
                                        | f # fs \<Rightarrow>
                                            (let newest = max_by (getctime env w5) f fs
                                             in case print_out env w5 of
                                                  (Some e, w6) \<Rightarrow> (Inl e, w6)
                                                | (None, w6) \<Rightarrow>
                                                    report_success env newest w6))))))))"

text \<open>
  The three handlers of \<^verbatim>\<open>download_audio\<close>, in the source's order; the last one is
  \<^verbatim>\<open>except Exception\<close>.
\<close>

fun download_audio_handler :: "exn \<Rightarrow> exn" where
  "download_audio_handler (DownloadError m) = Exception (''yt-dlp download error: '' @ m)"
| "download_audio_handler (FileNotFoundError m) =
     Exception (''File system error (check FFmpeg installation): '' @ m)"
| "download_audio_handler e = Exception (''Download failed: '' @ str_exn e)"

definition download_audio ::
  "'w env \<Rightarrow> downloader \<Rightarrow> 'w \<Rightarrow> ustring \<Rightarrow> ustring option \<Rightarrow> (exn + path) \<times> 'w" where
  "download_audio env d w url output_filename =
     (if \<not> is_valid_youtube_url url then (Inl (ValueError ''Invalid YouTube URL provided''), w)
      else
        (case download_audio_body env d w url output_filename of
           (Inl e, w1) \<Rightarrow>
             (if is_exception e then (Inl (download_audio_handler e), w1) else (Inl e, w1))
         | (Inr file, w1) \<Rightarrow> (Inr file, w1)))"

section \<open>Batch downloads\<close>

datatype status = Success | Failed

text \<open>
  One entry of a results list: the item (a URL in \<^verbatim>\<open>download_multiple\<close>, a video in
  \<^verbatim>\<open>download_playlist\<close>), \<^verbatim>\<open>file\<close>, \<^verbatim>\<open>status\<close> and, on failure, \<^verbatim>\<open>error\<close>.
\<close>

record 'a download_result =
  dr_item :: 'a
  dr_file :: "path option"
  dr_status :: status
  dr_error :: "string option"

definition success_entry :: "'a \<Rightarrow> path \<Rightarrow> 'a download_result" where
  "success_entry x file = \<lparr>dr_item = x, dr_file = Some file, dr_status = Success, dr_error = None\<rparr>"

definition failed_entry :: "'a \<Rightarrow> exn \<Rightarrow> 'a download_result" where
  "failed_entry x e =
     \<lparr>dr_item = x, dr_file = None, dr_status = Failed, dr_error = Some (str_exn e)\<rparr>"

text \<open>
  The \<^verbatim>\<open>try\<close> block of the loop of \<^verbatim>\<open>download_multiple\<close> (lines 235 to 237) for one URL.
  The state holds \<^verbatim>\<open>results\<close>, the calls made so far and the world; the block yields the
  exception that leaves it, if any, and the state reached by then.
\<close>

definition multiple_item_try ::
  "'w env \<Rightarrow> downloader \<Rightarrow> ustring \<Rightarrow>
   ustring download_result list \<times> event list \<times> 'w \<Rightarrow>
   exn option \<times> ustring download_result list \<times> event list \<times> 'w" where
  "multiple_item_try env d url acc =
     (case acc of (results, calls, w) \<Rightarrow>
        (case print_out env w of
           (Some e, w1) \<Rightarrow> (Some e, results, calls, w1)
         | (None, w1) \<Rightarrow>
             (case download_audio env d w1 url None of
                (Inl e, w2) \<Rightarrow> (Some e, results, calls @ [Download url (output_dir d)], w2)
              | (Inr file, w2) \<Rightarrow>
                  (None, results @ [success_entry url file],
                   calls @ [Download url (output_dir d)], w2))))"

text \<open>
  The loop of \<^verbatim>\<open>download_multiple\<close>. The handler (lines 238 to 240) takes the exceptions
  of class \<^verbatim>\<open>Exception\<close>; its own \<^verbatim>\<open>print\<close> may raise, and nothing catches that. The loop
  ends with \<open>None\<close> when every item has been processed, or with the exception that
  escapes.
\<close>

fun download_multiple_loop ::
  "'w env \<Rightarrow> downloader \<Rightarrow> ustring list \<Rightarrow>
   ustring download_result list \<times> event list \<times> 'w \<Rightarrow>
   exn option \<times> ustring download_result list \<times> event list \<times> 'w" where
  "download_multiple_loop env d [] acc = (None, acc)"
| "download_multiple_loop env d (url # urls) acc =
     (case multiple_item_try env d url acc of
        (None, acc1) \<Rightarrow> download_multiple_loop env d urls acc1
      | (Some e, results, calls, w1) \<Rightarrow>
          if is_exception e then
            (case print_out env w1 of
               (Some e', w2) \<Rightarrow> (Some e', results, calls, w2)
             | (None, w2) \<Rightarrow>
                 download_multiple_loop env d urls
                   (results @ [failed_entry url e], calls, w2))
          else (Some e, results, calls, w1))"

text \<open>
  \<^verbatim>\<open>download_multiple\<close>: the results, or the exception that escapes the loop; then the
  calls made and the world.
\<close>

definition download_multiple ::
  "'w env \<Rightarrow> downloader \<Rightarrow> 'w \<Rightarrow> ustring list \<Rightarrow>
   (exn + ustring download_result list) \<times> event list \<times> 'w" where
  "download_multiple env d w urls =
     (case download_multiple_loop env d urls ([], [], w) of
        (None, results, calls, w1) \<Rightarrow> (Inr results, calls, w1)
      | (Some e, results, calls, w1) \<Rightarrow> (Inl e, calls, w1))"

text \<open>
  The \<^verbatim>\<open>try\<close> block of the loop of \<^verbatim>\<open>download_playlist\<close> (lines 283 to 297) for the video
  of index \<open>i\<close>; \<open>n\<close> is \<^verbatim>\<open>len(videos_to_download)\<close>. The state holds \<^verbatim>\<open>results\<close>,
  \<^verbatim>\<open>successful_downloads\<close>, the calls made so far and the world. The entry of a successful
  download is appended and counted before the pause, and the pause (its \<^verbatim>\<open>print\<close> and
  \<^verbatim>\<open>time.sleep\<close>) belongs to the same \<^verbatim>\<open>try\<close>: an exception raised there leaves the block
  with the entry already in \<^verbatim>\<open>results\<close>.
\<close>

definition playlist_item_try ::
  "'w env \<Rightarrow> downloader \<Rightarrow> real \<Rightarrow> nat \<Rightarrow> nat \<Rightarrow> video \<Rightarrow>
   video download_result list \<times> nat \<times> event list \<times> 'w \<Rightarrow>
   exn option \<times> video download_result list \<times> nat \<times> event list \<times> 'w" where
  "playlist_item_try env d delay n i video acc =
     (case acc of (results, successful_downloads, calls, w) \<Rightarrow>
        (case print_n env 2 w of
           (Some e, w1) \<Rightarrow> (Some e, results, successful_downloads, calls, w1)
         | (None, w1) \<Rightarrow>
             (case download_audio env d w1 (v_url video) None of
                (Inl e, w2) \<Rightarrow>
                  (Some e, results, successful_downloads,
                   calls @ [Download (v_url video) (output_dir d)], w2)
              | (Inr file, w2) \<Rightarrow>
                  (let results1 = results @ [success_entry video file];
                       successful_downloads1 = successful_downloads + 1;
                       calls1 = calls @ [Download (v_url video) (output_dir d)]
                   in if 0 < delay \<and> i < n then
                        (case print_out env w2 of
                           (Some e, w3) \<Rightarrow> (Some e, results1, successful_downloads1, calls1, w3)
                         | (None, w3) \<Rightarrow>
                             (case sleep env w3 delay of
                                (raised, w4) \<Rightarrow>
                                  (raised, results1, successful_downloads1,
                                   calls1 @ [Suspend delay], w4)))
                      else (None, results1, successful_downloads1, calls1, w2)))))"

text \<open>
  The loop of \<^verbatim>\<open>download_playlist\<close> (lines 281 to 307), for
  \<^verbatim>\<open>enumerate(videos_to_download, 1)\<close> from index \<open>i\<close> on. The handler (lines 299 to 307)
  takes the exceptions of class \<^verbatim>\<open>Exception\<close>, appends a failed entry to \<^verbatim>\<open>results\<close> as
  the \<^verbatim>\<open>try\<close> block left it, and goes on; its own \<^verbatim>\<open>print\<close> may raise. The loop ends with
  \<open>None\<close> when every item has been processed, or with the exception that escapes.
\<close>

fun download_playlist_loop ::
  "'w env \<Rightarrow> downloader \<Rightarrow> real \<Rightarrow> nat \<Rightarrow> nat \<Rightarrow> video list \<Rightarrow>
   video download_result list \<times> nat \<times> event list \<times> 'w \<Rightarrow>
   exn option \<times> video download_result list \<times> nat \<times> event list \<times> 'w" where
  "download_playlist_loop env d delay n i [] acc = (None, acc)"
| "download_playlist_loop env d delay n i (video # videos) acc =
     (case playlist_item_try env d delay n i video acc of
        (None, acc1) \<Rightarrow> download_playlist_loop env d delay n (i + 1) videos acc1
      | (Some e, results, successful_downloads, calls, w1) \<Rightarrow>
          if is_exception e then
            (case print_out env w1 of
               (Some e', w2) \<Rightarrow> (Some e', results, successful_downloads, calls, w2)
             | (None, w2) \<Rightarrow>
                 download_playlist_loop env d delay n (i + 1) videos
                   (results @ [failed_entry video e], successful_downloads, calls, w2))
          else (Some e, results, successful_downloads, calls, w1))"

record report =
  rep_playlist_info :: playlist_info
  rep_results :: "video download_result list"
  rep_successful_downloads :: nat
  rep_total_videos :: nat
  rep_output_directory :: path

text \<open>
  Lines 258 to 262: \<^verbatim>\<open>if max_videos and max_videos > 0\<close>, then
  \<^verbatim>\<open>videos_to_download[:max_videos]\<close> and one \<^verbatim>\<open>print\<close>.
\<close>

definition limit_applies :: "int option \<Rightarrow> bool" where
  "limit_applies max_videos =
     (case max_videos of None \<Rightarrow> False | Some k \<Rightarrow> k \<noteq> 0 \<and> 0 < k)"

definition limit_videos :: "int option \<Rightarrow> video list \<Rightarrow> video list" where
  "limit_videos max_videos videos =
     (case max_videos of
        None \<Rightarrow> videos
      | Some k \<Rightarrow> if k \<noteq> 0 \<and> 0 < k then take (nat k) videos else videos)"

text \<open>
  The body of the \<^verbatim>\<open>try\<close> of \<^verbatim>\<open>download_playlist\<close> (lines 250 to 326), with its calls of
  \<^verbatim>\<open>print\<close>. When it raises, it also yields \<^verbatim>\<open>original_output_dir\<close> if that local is bound
  by then, which is what the handler tests with \<^verbatim>\<open>'original_output_dir' in locals()\<close>,
  and the instance as the body left it.
\<close>

definition download_playlist_body ::
  "'w env \<Rightarrow> downloader \<Rightarrow> 'w \<Rightarrow> ustring \<Rightarrow> int option \<Rightarrow> real \<Rightarrow>
   (exn \<times> path option + report) \<times> downloader \<times> event list \<times> 'w" where
  "download_playlist_body env d w playlist_url max_videos delay =
     (case print_out env w of
        (Some e, w0) \<Rightarrow> (Inl (e, None), d, [], w0)
      | (None, w0) \<Rightarrow>
     (case get_playlist_info env w0 playlist_url of
        (Inl e, w1) \<Rightarrow> (Inl (e, None), d, [], w1)
      | (Inr info, w1) \<Rightarrow>
     (case print_n env 3 w1 of
        (Some e, w2) \<Rightarrow> (Inl (e, None), d, [], w2)
      | (None, w2) \<Rightarrow>
     (case (if limit_applies max_videos then print_out env w2 else (None, w2)) of
        (Some e, w3) \<Rightarrow> (Inl (e, None), d, [], w3)
      | (None, w3) \<Rightarrow>
          (let videos_to_download = limit_videos max_videos (pl_videos info);
               playlist_name = sanitize_filename (pl_title info);
               playlist_dir = path_join (output_dir d) playlist_name
           in case mkdir env w3 playlist_dir of
                (Some e, w4) \<Rightarrow> (Inl (e, None), d, [], w4)
              | (None, w4) \<Rightarrow>
                  (let original_output_dir = output_dir d;
                       d1 = d\<lparr>output_dir := playlist_dir,
                              outtmpl := default_outtmpl playlist_dir\<rparr>
                   in case print_n env 3 w4 of
                        (Some e, w5) \<Rightarrow> (Inl (e, Some original_output_dir), d1, [], w5)
                      | (None, w5) \<Rightarrow>
                          (case download_playlist_loop env d1 delay (length videos_to_download) 1
                                  videos_to_download ([], 0, [], w5) of
                             (Some e, results, successful_downloads, calls, w6) \<Rightarrow>
                               (Inl (e, Some original_output_dir), d1, calls, w6)
                           | (None, results, successful_downloads, calls, w6) \<Rightarrow>
                               (let d2 = d1\<lparr>output_dir := original_output_dir,
                                            outtmpl := default_outtmpl original_output_dir\<rparr>
                                in case print_n env 5 w6 of
                                     (Some e, w7) \<Rightarrow>
                                       (Inl (e, Some original_output_dir), d2, calls, w7)
                                   | (None, w7) \<Rightarrow>
                                       (Inr \<lparr>rep_playlist_info = info,
                                             rep_results = results,
                                             rep_successful_downloads = successful_downloads,
                                             rep_total_videos = length videos_to_download,
                                             rep_output_directory = playlist_dir\<rparr>,
                                        d2, calls, w7)))))))))"

text \<open>
  \<^verbatim>\<open>download_playlist\<close>: the guard before the \<^verbatim>\<open>try\<close>, the body, and the handler of lines
  328 to 333. The handler is \<^verbatim>\<open>except Exception\<close>: it restores the directory when
  \<^verbatim>\<open>original_output_dir\<close> is bound and wraps the exception; an exception of another
  class passes, and the instance stays as the body left it. The result is the report or
  the exception, the instance after the call, the calls made and the world.
\<close>

definition download_playlist ::
  "'w env \<Rightarrow> downloader \<Rightarrow> 'w \<Rightarrow> ustring \<Rightarrow> int option \<Rightarrow> real \<Rightarrow>
   (exn + report) \<times> downloader \<times> event list \<times> 'w" where
  "download_playlist env d w playlist_url max_videos delay =
     (if \<not> is_playlist_url playlist_url
      then (Inl (ValueError ''URL is not a valid YouTube playlist''), d, [], w)
      else
        (case download_playlist_body env d w playlist_url max_videos delay of
           (Inl (e, original), d1, calls, w1) \<Rightarrow>
             if is_exception e then
               (Inl (Exception (''Playlist download failed: '' @ str_exn e)),
                (case original of
                   None \<Rightarrow> d1
                 | Some original_output_dir \<Rightarrow>
                     d1\<lparr>output_dir := original_output_dir,
                        outtmpl := default_outtmpl original_output_dir\<rparr>),
                calls, w1)
             else (Inl e, d1, calls, w1)
         | (Inr r, d1, calls, w1) \<Rightarrow> (Inr r, d1, calls, w1)))"

section \<open>Dispatch on the kind of locator\<close>

datatype locator_kind = SingleItem | Collection

text \<open>
  \<^verbatim>\<open>main\<close> (lines 409 to 433) takes the playlist branch when the flag is set or
  \<^verbatim>\<open>is_playlist_url\<close> holds, and the single-video branch otherwise; the operation it
  then calls starts with its own guard (line 246, line 163), which raises \<^verbatim>\<open>ValueError\<close>.
  \<open>classify_locator\<close> is this decision: the kind of operation that accepts the locator, or
  the exception.
\<close>

definition classify_locator :: "bool \<Rightarrow> ustring \<Rightarrow> exn + locator_kind" where
  "classify_locator playlist_flag url =
     (let is_playlist = playlist_flag \<or> is_playlist_url url
      in if is_playlist
         then (if \<not> is_playlist_url url
               then Inl (ValueError ''URL is not a valid YouTube playlist'')
               else Inr Collection)
         else (if \<not> is_valid_youtube_url url
               then Inl (ValueError ''Invalid YouTube URL provided'')
               else Inr SingleItem))"

section \<open>Auxiliary definitions\<close>

text \<open>What the loop of \<open>replace_invalid\<close> does to one code point.\<close>

definition subst_invalid :: "nat \<Rightarrow> nat" where
  "subst_invalid x = (if x \<in> set invalid_chars then underscore else x)"

text \<open>A name of 101 code points: 99 times \<^verbatim>\<open>a\<close>, a space, and \<^verbatim>\<open>b\<close>.\<close>

definition long_name :: "ustring" where
  "long_name = replicate 99 97 @ [32, 98]"

text \<open>Readings of the list of calls and of a results list.\<close>

definition attempted :: "event list \<Rightarrow> ustring list" where
  "attempted calls = [u. Download u p \<leftarrow> calls]"

definition download_dirs :: "event list \<Rightarrow> path list" where
  "download_dirs calls = [p. Download u p \<leftarrow> calls]"

definition suspensions :: "event list \<Rightarrow> real list" where
  "suspensions calls = [t. Suspend t \<leftarrow> calls]"

definition successes :: "'a download_result list \<Rightarrow> 'a download_result list" where
  "successes results = filter (\<lambda>r. dr_status r = Success) results"

definition failures :: "'a download_result list \<Rightarrow> 'a download_result list" where
  "failures results = filter (\<lambda>r. dr_status r = Failed) results"

text \<open>
  The entries that one pass of a loop body can leave for the item \<open>x\<close>: a single entry
  of \<open>x\<close>, or a success entry of \<open>x\<close> followed by a failed entry of \<open>x\<close>.
\<close>

fun item_entries :: "'a \<Rightarrow> 'a download_result list \<Rightarrow> bool" where
  "item_entries x [r] = (dr_item r = x)"
| "item_entries x [r1, r2] =
     (dr_item r1 = x \<and> dr_status r1 = Success \<and> dr_item r2 = x \<and> dr_status r2 = Failed)"
| "item_entries x rs = False"

text \<open>
  An environment in which \<^verbatim>\<open>print\<close> always returns and the pause of the given length
  always returns.
\<close>

definition quiet :: "'w env \<Rightarrow> real \<Rightarrow> bool" where
  "quiet env delay \<longleftrightarrow>
     (\<forall>w. fst (print_out env w) = None) \<and> (\<forall>w. fst (sleep env w delay) = None)"

text \<open>
  What it means for a call that returned the report \<open>r\<close> after the calls \<open>cs\<close> to have
  processed exactly the videos \<open>vs\<close>, in their order: the report counts them; the results
  are the entries of the first video, then those of the second, and so on; no other video
  is downloaded; and in a quiet environment each video has one entry and one call of
  \<^verbatim>\<open>download_audio\<close>.
\<close>

definition processed :: "'w env \<Rightarrow> real \<Rightarrow> report \<Rightarrow> event list \<Rightarrow> video list \<Rightarrow> bool" where
  "processed env delay r cs vs \<longleftrightarrow>
     rep_total_videos r = length vs
     \<and> (\<exists>bs. rep_results r = concat bs \<and> list_all2 item_entries vs bs)
     \<and> subseq (attempted cs) (map v_url vs)
     \<and> (quiet env delay \<longrightarrow>
          map dr_item (rep_results r) = vs \<and> attempted cs = map v_url vs)"

text \<open>
  A small world for worked examples. The world is a counter of the calls made to the
  extractor and to the clock. The playlist extractor answers with the given entries (or
  with no \<^verbatim>\<open>entries\<close> key); every video is called \<^verbatim>\<open>Track\<close>; the download of the URLs
  listed in \<open>bad\<close> raises \<^verbatim>\<open>DownloadError\<close>, every other download writes the expected file.
  \<^verbatim>\<open>print\<close> returns; \<^verbatim>\<open>time.sleep\<close> returns for a delay that fits the timer (a signed
  64-bit count of nanoseconds) and raises \<^verbatim>\<open>OverflowError\<close> beyond.
\<close>

definition demo_entries :: "raw_entry option list" where
  "demo_entries =
     [Some \<lparr>re_id = ustr ''abc12345678'', re_title = Some (ustr ''First''),
            re_duration = Some 100, re_uploader = Some (ustr ''Artist'')\<rparr>,
      None,
      Some \<lparr>re_id = ustr ''bbbbbbbbbbb'', re_title = None,
            re_duration = None, re_uploader = None\<rparr>,
      Some \<lparr>re_id = ustr ''ccccccccccc'', re_title = Some (ustr ''Third''),
            re_duration = Some 300, re_uploader = Some (ustr ''Artist'')\<rparr>]"

definition demo_playlist :: "raw_entry option list option \<Rightarrow> raw_playlist" where
  "demo_playlist entries =
     \<lparr>rp_title = Some (ustr ''My: Mix''), rp_uploader = Some (ustr ''Artist''),
      rp_entries = entries\<rparr>"

definition out_of_range :: exn where
  "out_of_range = OverflowError ''timestamp out of range for platform time_t''"

definition demo_env :: "raw_entry option list option \<Rightarrow> ustring list \<Rightarrow> nat env" where
  "demo_env entries bad =
     \<lparr>which_ffmpeg = (\<lambda>w. Some ''/usr/bin/ffmpeg''),
      os_path_exists = (\<lambda>w p. False),
      mkdir = (\<lambda>w p. (None, w)),
      ydl_video_info = (\<lambda>w url.
        (Inr \<lparr>rv_title = Some (ustr ''Track''), rv_duration = Some 200,
              rv_uploader = Some (ustr ''Artist'')\<rparr>, Suc w)),
      ydl_playlist_info = (\<lambda>w url. (Inr (demo_playlist entries), Suc w)),
      ydl_download = (\<lambda>w tmpl url.
        (if url \<in> set bad then Some (DownloadError ''HTTP Error 403: Forbidden'') else None,
         Suc w)),
      path_exists = (\<lambda>w p. True),
      glob_mp3 = (\<lambda>w p. []),
      getctime = (\<lambda>w p. 0),
      sleep = (\<lambda>w t. if 9223372036 < t then (Some out_of_range, w) else (None, Suc w)),
      print_out = (\<lambda>w. (None, w))\<rparr>"




definition demo_downloader :: "downloader" where
  "demo_downloader =
     \<lparr>output_dir = [ustr ''downloads''], outtmpl = default_outtmpl [ustr ''downloads''],
      ffmpeg_location = ''/usr/bin/ffmpeg''\<rparr>"

definition playlist_url :: "ustring" where
  "playlist_url = ustr ''https://www.youtube.com/playlist?list=PL123''"

definition watch_url :: "string \<Rightarrow> ustring" where
  "watch_url vid = ustr ''https://www.youtube.com/watch?v='' @ ustr vid"

definition video_a :: video where
  "video_a = \<lparr>v_url = watch_url ''abc12345678'', v_title = ustr ''First'',
              v_duration = 100, v_uploader = ustr ''Artist''\<rparr>"

definition video_b :: video where
  "video_b = \<lparr>v_url = watch_url ''bbbbbbbbbbb'', v_title = ustr ''Unknown Title'',
              v_duration = 0, v_uploader = ustr ''Unknown''\<rparr>"

definition video_c :: video where
  "video_c = \<lparr>v_url = watch_url ''ccccccccccc'', v_title = ustr ''Third'',
              v_duration = 300, v_uploader = ustr ''Artist''\<rparr>"

definition demo_info :: "video list \<Rightarrow> playlist_info" where
  "demo_info videos =
     \<lparr>pl_title = ustr ''My: Mix'', pl_uploader = ustr ''Artist'',
      pl_video_count = length videos, pl_videos = videos\<rparr>"

definition demo_dir :: path where
  "demo_dir = [ustr ''downloads'', ustr ''My_ Mix'']"


definition track_file :: path where
  "track_file = [ustr ''downloads'', ustr ''My_ Mix'', ustr ''Track.mp3'']"

definition forbidden :: exn where
  "forbidden = Exception ''yt-dlp download error: HTTP Error 403: Forbidden''"

definition plain_file :: path where
  "plain_file = [ustr ''downloads'', ustr ''Track.mp3'']"

definition both_url :: ustring where
  "both_url = ustr ''https://www.youtube.com/watch?v=abc12345678&list=PL123''"

definition other_url :: ustring where
  "other_url = ustr ''https://example.org/video''"

section \<open>Correctness of the matcher\<close>

lemma nullable_lang: "nullable r \<longleftrightarrow> [] \<in> lang r"
  by (induction r) (auto intro: star_nil)

lemma lang_alt: "lang (alt a b) = lang a \<union> lang b"
  by (induction a b rule: alt.induct) auto

lemma lang_cat: "lang (cat a b) = {u @ v | u v. u \<in> lang a \<and> v \<in> lang b}"
  by (induction a b rule: cat.induct) auto

lemma star_cons:
  "c # w \<in> star L \<longleftrightarrow> (\<exists>u v. w = u @ v \<and> c # u \<in> L \<and> v \<in> star L)"
proof
  assume "c # w \<in> star L"
  then show "\<exists>u v. w = u @ v \<and> c # u \<in> L \<and> v \<in> star L"
  proof (induction "c # w" arbitrary: w rule: star.induct)
    case (star_app u v)
    show ?case
    proof (cases u)
      case Nil
      with star_app show ?thesis by simp
    next
      case (Cons a u')
      with star_app show ?thesis by auto
    qed
  qed
next
  assume "\<exists>u v. w = u @ v \<and> c # u \<in> L \<and> v \<in> star L"
  then obtain u v where "w = u @ v" "c # u \<in> L" "v \<in> star L" by blast
  then show "c # w \<in> star L" using star_app[of "c # u" L v] by simp
qed

lemma lang_deriv: "w \<in> lang (deriv c r) \<longleftrightarrow> c # w \<in> lang r"
proof (induction r arbitrary: w)
  case (Cat a b)
  show ?case
  proof
    assume "w \<in> lang (deriv c (Cat a b))"
    then consider u v where "w = u @ v" "u \<in> lang (deriv c a)" "v \<in> lang b"
      | "nullable a" "w \<in> lang (deriv c b)"
      by (auto simp: lang_alt lang_cat split: if_splits)
    then show "c # w \<in> lang (Cat a b)"
    proof cases
      case 1
      then have "c # u \<in> lang a" using Cat.IH(1) by simp
      then show ?thesis using 1 by (auto intro: exI[of _ "c # u"])
    next
      case 2
      then have "[] \<in> lang a" "c # w \<in> lang b" using Cat.IH(2) nullable_lang by auto
      then show ?thesis by (auto intro: exI[of _ "[]"])
    qed
  next
    assume "c # w \<in> lang (Cat a b)"
    then obtain u v where uv: "c # w = u @ v" "u \<in> lang a" "v \<in> lang b" by auto
    show "w \<in> lang (deriv c (Cat a b))"
    proof (cases u)
      case Nil
      with uv have "nullable a" "w \<in> lang (deriv c b)"
        using Cat.IH(2) nullable_lang by auto
      then show ?thesis by (simp add: lang_alt)
    next
      case (Cons a' u')
      with uv have "u' \<in> lang (deriv c a)" "w = u' @ v" using Cat.IH(1) by auto
      then show ?thesis using uv(3) by (auto simp: lang_alt lang_cat)
    qed
  qed
next
  case (Star a)
  show ?case using Star.IH by (auto simp: lang_cat star_cons)
qed (auto simp: lang_alt)

lemma re_match_Nil: "re_match r [] = nullable r"
  by (cases r) simp_all

lemma re_match_Cons: "re_match r (c # cs) \<longleftrightarrow> nullable r \<or> re_match (deriv c r) cs"
  by (cases r) simp_all

lemma re_match_lang: "re_match r s \<longleftrightarrow> (\<exists>p q. s = p @ q \<and> p \<in> lang r)"
proof (induction s arbitrary: r)
  case Nil
  then show ?case by (simp add: re_match_Nil nullable_lang)
next
  case (Cons c cs)
  have "re_match r (c # cs) \<longleftrightarrow> [] \<in> lang r \<or> (\<exists>p q. cs = p @ q \<and> c # p \<in> lang r)"
    by (simp add: re_match_Cons nullable_lang Cons.IH lang_deriv)
  also have "\<dots> \<longleftrightarrow> (\<exists>p q. c # cs = p @ q \<and> p \<in> lang r)"
  proof
    assume "[] \<in> lang r \<or> (\<exists>p q. cs = p @ q \<and> c # p \<in> lang r)"
    then show "\<exists>p q. c # cs = p @ q \<and> p \<in> lang r"
    proof
      assume "[] \<in> lang r"
      then show ?thesis by (intro exI[of _ "[]"] exI[of _ "c # cs"]) simp
    next
      assume "\<exists>p q. cs = p @ q \<and> c # p \<in> lang r"
      then obtain p q where "cs = p @ q" "c # p \<in> lang r" by blast
      then show ?thesis by (intro exI[of _ "c # p"] exI[of _ q]) simp
    qed
  next
    assume "\<exists>p q. c # cs = p @ q \<and> p \<in> lang r"
    then obtain p q where pq: "c # cs = p @ q" "p \<in> lang r" by blast
    show "[] \<in> lang r \<or> (\<exists>p q. cs = p @ q \<and> c # p \<in> lang r)"
    proof (cases p)
      case Nil
      with pq show ?thesis by simp
    next
      case (Cons a p')
      with pq have "cs = p' @ q" "c # p' \<in> lang r" by auto
      then show ?thesis by blast
    qed
  qed
  finally show ?case .
qed

lemma re_search_lang: "re_search r s \<longleftrightarrow> (\<exists>a p q. s = a @ p @ q \<and> p \<in> lang r)"
proof (induction s)
  case Nil
  then show ?case by (simp add: re_match_lang)
next
  case (Cons c cs)
  have "re_search r (c # cs) \<longleftrightarrow> re_match r (c # cs) \<or> re_search r cs"
    by simp
  also have "\<dots> \<longleftrightarrow>
      (\<exists>p q. c # cs = p @ q \<and> p \<in> lang r) \<or> (\<exists>a p q. cs = a @ p @ q \<and> p \<in> lang r)"
    unfolding re_match_lang[of r "c # cs"] Cons.IH by (rule refl)
  also have "\<dots> \<longleftrightarrow> (\<exists>a p q. c # cs = a @ p @ q \<and> p \<in> lang r)"
  proof
    assume "(\<exists>p q. c # cs = p @ q \<and> p \<in> lang r) \<or> (\<exists>a p q. cs = a @ p @ q \<and> p \<in> lang r)"
    then show "\<exists>a p q. c # cs = a @ p @ q \<and> p \<in> lang r"
    proof
      assume "\<exists>p q. c # cs = p @ q \<and> p \<in> lang r"
      then obtain p q where "c # cs = p @ q" "p \<in> lang r" by blast
      then show ?thesis by (intro exI[of _ "[]"] exI[of _ p] exI[of _ q]) simp
    next
      assume "\<exists>a p q. cs = a @ p @ q \<and> p \<in> lang r"
      then obtain a p q where "cs = a @ p @ q" "p \<in> lang r" by blast
      then show ?thesis by (intro exI[of _ "c # a"] exI[of _ p] exI[of _ q]) simp
    qed
  next
    assume "\<exists>a p q. c # cs = a @ p @ q \<and> p \<in> lang r"
    then obtain a p q where apq: "c # cs = a @ p @ q" "p \<in> lang r" by blast
    show "(\<exists>p q. c # cs = p @ q \<and> p \<in> lang r) \<or> (\<exists>a p q. cs = a @ p @ q \<and> p \<in> lang r)"
    proof (cases a)
      case Nil
      with apq show ?thesis by auto
    next
      case (Cons x a')
      with apq have "cs = a' @ p @ q" by simp
      with apq(2) show ?thesis by blast
    qed
  qed
  finally show ?case .
qed

section \<open>Properties of sanitization\<close>

lemma py_replace_single:
  "py_replace [c] [u] s = map (\<lambda>x. if x = c then u else x) s"
  by (induction s) auto

lemma replace_invalid_map: "replace_invalid s = map subst_invalid s"
  by (simp add: replace_invalid_def invalid_chars_def py_replace_single subst_invalid_def
      underscore_def)

lemma subst_invalid_valid: "subst_invalid x \<notin> set invalid_chars"
  by (simp add: subst_invalid_def invalid_chars_def underscore_def)

lemma set_py_strip: "set (py_strip s) \<subseteq> set s"
proof -
  have "set (py_strip s) \<subseteq> set (dropWhile py_isspace s)"
    unfolding py_strip_def using set_dropWhileD by fastforce
  also have "\<dots> \<subseteq> set s" using set_dropWhileD by fastforce
  finally show ?thesis .
qed

lemma placeholder_valid: "set (ustr ''Unknown_Playlist'') \<inter> set invalid_chars = {}"
  by (simp add: ustr_def invalid_chars_def)

lemma sanitize_valid: "set (sanitize_filename s) \<inter> set invalid_chars = {}"
proof (cases "take 100 (py_strip (replace_invalid s)) = []")
  case True
  then show ?thesis using placeholder_valid by (simp add: sanitize_filename_def)
next
  case False
  have "set (take 100 (py_strip (replace_invalid s))) \<subseteq> set (replace_invalid s)"
    using set_take_subset set_py_strip by fastforce
  moreover have "set (replace_invalid s) \<inter> set invalid_chars = {}"
    using subst_invalid_valid by (auto simp: replace_invalid_map)
  ultimately show ?thesis using False by (auto simp: sanitize_filename_def Let_def)
qed

lemma sanitize_length: "length (sanitize_filename s) \<le> 100"
  by (simp add: sanitize_filename_def Let_def ustr_def)

lemma sanitize_nonempty: "sanitize_filename s \<noteq> []"
  by (simp add: sanitize_filename_def Let_def ustr_def)

text \<open>
  Claim C3. For every string, the sanitized name holds none of the characters
  \<^verbatim>\<open>< > : " / \ | ? *\<close>, is at most 100 code points long and is never empty.
\<close>

theorem sanitize_output_safe:
  "set (sanitize_filename s) \<inter> set invalid_chars = {}
   \<and> length (sanitize_filename s) \<le> 100
   \<and> sanitize_filename s \<noteq> []"
  using sanitize_valid sanitize_length sanitize_nonempty by blast

theorem sanitize_output_safe_witness:
  "sanitize_filename (ustr ''My: Song / Mix?'') = ustr ''My_ Song _ Mix_''
   \<and> set (ustr ''My_ Song _ Mix_'') \<inter> set invalid_chars = {}
   \<and> sanitize_filename [] = ustr ''Unknown_Playlist''"
proof -
  have a: "sanitize_filename (ustr ''My: Song / Mix?'') = ustr ''My_ Song _ Mix_''"
    by (simp add: sanitize_filename_def replace_invalid_def invalid_chars_def ustr_def
        py_strip_def py_isspace_def underscore_def)
  have b: "sanitize_filename [] = ustr ''Unknown_Playlist''"
    by (simp add: sanitize_filename_def replace_invalid_def invalid_chars_def py_strip_def)
  from sanitize_output_safe[of "ustr ''My: Song / Mix?''"] a b show ?thesis by simp
qed

subsection \<open>Applying the sanitizer twice\<close>

lemma rstrip_prefix: "prefix (rev (dropWhile P (rev d))) d"
proof -
  have "rev d = takeWhile P (rev d) @ dropWhile P (rev d)" by simp
  then have "d = rev (dropWhile P (rev d)) @ rev (takeWhile P (rev d))"
    by (metis rev_append rev_rev_ident)
  then show ?thesis by (metis prefixI)
qed

lemma py_strip_hd:
  assumes "py_strip r \<noteq> []"
  shows "\<not> py_isspace (hd (py_strip r))"
proof -
  let ?d = "dropWhile py_isspace r"
  from assms have d: "?d \<noteq> []"
    by (auto simp: py_strip_def simp del: dropWhile_eq_Nil_conv)
  then have "\<not> py_isspace (hd ?d)" by (rule hd_dropWhile)
  moreover have "prefix (py_strip r) ?d" unfolding py_strip_def by (rule rstrip_prefix)
  then have "hd (py_strip r) = hd ?d" using assms by (auto simp: prefix_def)
  ultimately show ?thesis by simp
qed

lemma rstrip_nonempty:
  assumes "t \<noteq> []" "\<not> P (hd t)"
  shows "dropWhile P (rev t) \<noteq> []"
proof -
  have "hd t \<in> set (rev t)" using assms(1) by simp
  then show ?thesis using assms(2) by (auto simp: dropWhile_eq_Nil_conv)
qed

lemma rstrip_id_iff:
  "t \<noteq> [] \<Longrightarrow> rev (dropWhile P (rev t)) = t \<longleftrightarrow> \<not> P (last t)"
proof -
  assume "t \<noteq> []"
  then obtain x xs where r: "rev t = x # xs" by (cases "rev t") auto
  then have l: "last t = x" by (metis last_rev list.sel(1) rev_rev_ident)
  have "rev (dropWhile P (rev t)) = t \<longleftrightarrow> dropWhile P (rev t) = rev t"
    by (metis rev_rev_ident)
  also have "\<dots> \<longleftrightarrow> \<not> P x" unfolding r
    using length_dropWhile_le[of P xs] by (auto dest!: arg_cong[where f=length])
  finally show ?thesis using l by simp
qed

lemma py_strip_id:
  assumes "t \<noteq> []" "\<not> py_isspace (hd t)" "\<not> py_isspace (last t)"
  shows "py_strip t = t"
proof -
  have dw: "dropWhile py_isspace t = t" using assms(1,2) by (cases t) auto
  show ?thesis using rstrip_id_iff[OF assms(1), of py_isspace] assms(3)
    by (simp add: py_strip_def dw)
qed

lemma sanitize_placeholder:
  "sanitize_filename (ustr ''Unknown_Playlist'') = ustr ''Unknown_Playlist''"
  by (simp add: sanitize_filename_def replace_invalid_def invalid_chars_def ustr_def
      py_strip_def py_isspace_def underscore_def)

lemma rstrip_placeholder:
  "rev (dropWhile py_isspace (rev (ustr ''Unknown_Playlist''))) = ustr ''Unknown_Playlist''"
  by (simp add: ustr_def py_isspace_def)

text \<open>A second application only removes trailing whitespace.\<close>

lemma sanitize_twice:
  "sanitize_filename (sanitize_filename s) =
     rev (dropWhile py_isspace (rev (sanitize_filename s)))"
proof (cases "take 100 (py_strip (replace_invalid s)) = []")
  case True
  then have "sanitize_filename s = ustr ''Unknown_Playlist''"
    by (simp add: sanitize_filename_def)
  then show ?thesis by (simp add: sanitize_placeholder rstrip_placeholder)
next
  case False
  define t where "t = take 100 (py_strip (replace_invalid s))"
  have st: "sanitize_filename s = t" using False by (simp add: sanitize_filename_def t_def)
  have tne: "t \<noteq> []" using False by (simp add: t_def)
  have len: "length t \<le> 100" by (simp add: t_def)
  have "set t \<inter> set invalid_chars = {}" using sanitize_valid[of s] st by simp
  then have "\<And>x. x \<in> set t \<Longrightarrow> subst_invalid x = x"
    by (auto simp: subst_invalid_def)
  then have rt: "replace_invalid t = t"
    unfolding replace_invalid_map by (rule map_idI)
  have sne: "py_strip (replace_invalid s) \<noteq> []" using False by auto
  have "hd t = hd (py_strip (replace_invalid s))" using sne by (simp add: t_def)
  then have hd: "\<not> py_isspace (hd t)" using py_strip_hd[OF sne] by simp
  then have dw: "dropWhile py_isspace t = t" using tne by (cases t) auto
  let ?rs = "rev (dropWhile py_isspace (rev t))"
  have strip: "py_strip t = ?rs" by (simp add: py_strip_def dw)
  have "length ?rs \<le> length t"
    by (simp add: length_dropWhile_le[of py_isspace "rev t", simplified])
  then have tk: "take 100 ?rs = ?rs" using len by simp
  have ne: "?rs \<noteq> []" using rstrip_nonempty[of t py_isspace] tne hd by simp
  have "sanitize_filename t = ?rs"
    using ne by (simp add: sanitize_filename_def rt strip tk del: rev_is_Nil_conv)
  then show ?thesis by (simp add: st)
qed

lemma sanitize_idem_iff:
  "sanitize_filename (sanitize_filename s) = sanitize_filename s \<longleftrightarrow>
     \<not> py_isspace (last (sanitize_filename s))"
  using rstrip_id_iff[OF sanitize_nonempty, of py_isspace s] by (simp add: sanitize_twice)

lemma sanitize_long_name: "sanitize_filename long_name = replicate 99 97 @ [32]"
proof -
  have r: "replace_invalid long_name = long_name"
    by (simp add: long_name_def replace_invalid_map subst_invalid_def invalid_chars_def)
  have "py_strip long_name = long_name"
    by (rule py_strip_id) (simp_all add: long_name_def py_isspace_def)
  then show ?thesis by (simp add: sanitize_filename_def r) (simp add: long_name_def)
qed

lemma sanitize_long_name_twice:
  "sanitize_filename (sanitize_filename long_name) = replicate 99 97"
proof -
  have "rev (dropWhile py_isspace (rev (replicate 99 97 @ [32::nat]))) = replicate 99 97"
    by (simp add: py_isspace_def)
  then show ?thesis using sanitize_twice[of long_name]
    by (simp only: sanitize_long_name)
qed

text \<open>
  Claim C2. The claim is that \<open>sanitize_filename\<close> is idempotent. The source strips
  before it truncates, so a name whose 100th code point (after stripping) is a space is
  returned with that space at its end, and a second application removes it: on
  \<open>long_name\<close> the first result has 100 code points and the second has 99.
\<close>

theorem sanitize_not_idempotent:
  "sanitize_filename long_name = replicate 99 97 @ [32]
   \<and> sanitize_filename (sanitize_filename long_name) = replicate 99 97
   \<and> sanitize_filename (sanitize_filename long_name) \<noteq> sanitize_filename long_name"
proof (intro conjI)
  show "sanitize_filename long_name = replicate 99 97 @ [32]"
    by (rule sanitize_long_name)
  show "sanitize_filename (sanitize_filename long_name) = replicate 99 97"
    by (rule sanitize_long_name_twice)
  have "length (sanitize_filename (sanitize_filename long_name)) = 99"
    by (simp only: sanitize_long_name_twice length_replicate)
  moreover have "length (sanitize_filename long_name) = 100"
    by (simp add: sanitize_long_name)
  ultimately show "sanitize_filename (sanitize_filename long_name) \<noteq> sanitize_filename long_name"
    by auto
qed

section \<open>Properties of \<open>py_replace\<close> and of the explicit output name\<close>

lemma py_replace_skip:
  "old \<noteq> [] \<Longrightarrow> \<not> prefix old (c # cs) \<Longrightarrow>
     py_replace old new (c # cs) = c # py_replace old new cs"
  by simp

lemma py_replace_hit:
  "old \<noteq> [] \<Longrightarrow> py_replace old new (old @ zs) = new @ py_replace old new zs"
  by (cases old) simp_all

lemma mp3_code: "ustr ''.mp3'' = [46, 109, 112, 51]" by (simp add: ustr_def)

lemma mp3_nonempty: "ustr ''.mp3'' \<noteq> []" by (simp add: ustr_def)

lemma mp3_no_straddle:
  assumes "xs \<noteq> []"
  shows "prefix (ustr ''.mp3'') (xs @ ustr ''.mp3'' @ ys) \<longleftrightarrow> prefix (ustr ''.mp3'') xs"
proof -
  from assms consider a where "xs = [a]" | a b where "xs = [a, b]"
    | a b c where "xs = [a, b, c]" | a b c e zs where "xs = a # b # c # e # zs"
    by (metis list.exhaust)
  then show ?thesis by cases (auto simp: mp3_code)
qed

lemma py_replace_mp3_split:
  "py_replace (ustr ''.mp3'') new (xs @ ustr ''.mp3'' @ ys) =
     py_replace (ustr ''.mp3'') new xs @ new @ py_replace (ustr ''.mp3'') new ys"
proof (induction xs rule: length_induct)
  case (1 xs)
  define m where "m = ustr ''.mp3''"
  have mne: "m \<noteq> []" by (simp add: m_def mp3_nonempty)
  have ih: "py_replace m new (zs @ m @ ys) = py_replace m new zs @ new @ py_replace m new ys"
    if "length zs < length xs" for zs
    using 1 that unfolding m_def by blast
  have "py_replace m new (xs @ m @ ys) = py_replace m new xs @ new @ py_replace m new ys"
  proof (cases xs)
    case Nil
    have "py_replace m new [] = []" using mne by simp
    then show ?thesis using py_replace_hit[OF mne, of new ys] by (simp add: Nil)
  next
    case (Cons c cs)
    show ?thesis
    proof (cases "prefix m xs")
      case True
      then obtain zs where zs: "xs = m @ zs" by (auto simp: prefix_def)
      then have "length zs < length xs" using mne by simp
      then have "py_replace m new (zs @ m @ ys) =
         py_replace m new zs @ new @ py_replace m new ys" by (rule ih)
      then show ?thesis
        using py_replace_hit[OF mne, of new "zs @ m @ ys"] py_replace_hit[OF mne, of new zs]
        by (simp add: zs)
    next
      case False
      then have nf: "\<not> prefix m (c # (cs @ m @ ys))"
        using mp3_no_straddle[of xs ys] Cons by (simp add: m_def)
      have "length cs < length xs" using Cons by simp
      then have "py_replace m new (cs @ m @ ys) =
         py_replace m new cs @ new @ py_replace m new ys" by (rule ih)
      then show ?thesis
        using py_replace_skip[OF mne nf, of new] py_replace_skip[OF mne, of c cs new] False
        by (simp add: Cons)
    qed
  qed
  then show ?case by (simp add: m_def)
qed

text \<open>
  Claim C10. With an explicit output filename, \<^verbatim>\<open>replace('.mp3', '')\<close> removes the
  substring \<^verbatim>\<open>.mp3\<close> wherever it occurs in the name, before sanitization: splitting the
  name at any occurrence, the base name is the sanitized concatenation of what the
  replacement leaves of the two sides. For \<^verbatim>\<open>a.mp3b\<close> the base name is \<^verbatim>\<open>ab\<close>, which
  differs from the sanitized form \<^verbatim>\<open>a.mp3b\<close> of the given name.
\<close>

theorem explicit_name_drops_every_mp3:
  "target_base_name (Some (xs @ ustr ''.mp3'' @ ys)) safe_title =
     sanitize_filename (py_replace (ustr ''.mp3'') [] xs @ py_replace (ustr ''.mp3'') [] ys)
   \<and> target_base_name (Some (ustr ''a.mp3b'')) safe_title = ustr ''ab''
   \<and> sanitize_filename (ustr ''a.mp3b'') = ustr ''a.mp3b''
   \<and> target_base_name (Some (ustr ''a.mp3b'')) safe_title \<noteq> sanitize_filename (ustr ''a.mp3b'')"
proof -
  have a: "target_base_name (Some (xs @ ustr ''.mp3'' @ ys)) safe_title =
     sanitize_filename (py_replace (ustr ''.mp3'') [] xs @ py_replace (ustr ''.mp3'') [] ys)"
    using py_replace_mp3_split[of "[]" xs ys]
    by (simp add: target_base_name_def mp3_nonempty)
  have b: "target_base_name (Some (ustr ''a.mp3b'')) safe_title = ustr ''ab''"
    by (simp add: target_base_name_def sanitize_filename_def replace_invalid_def
        invalid_chars_def ustr_def py_strip_def py_isspace_def underscore_def)
  have c: "sanitize_filename (ustr ''a.mp3b'') = ustr ''a.mp3b''"
    by (simp add: sanitize_filename_def replace_invalid_def invalid_chars_def ustr_def
        py_strip_def py_isspace_def underscore_def)
  have d: "ustr ''ab'' \<noteq> ustr ''a.mp3b''" by (simp add: ustr_def)
  from a b c d show ?thesis by simp
qed

section \<open>Properties of the batch loops\<close>

lemma collect_videos_acc:
  "collect_videos entries videos = videos @ map video_of_entry [e. Some e \<leftarrow> entries]"
proof (induction entries arbitrary: videos)
  case Nil then show ?case by simp
next
  case (Cons x xs) then show ?case by (cases x) simp_all
qed

lemma attempted_append [simp]: "attempted (xs @ ys) = attempted xs @ attempted ys"
  by (simp add: attempted_def)
lemma download_dirs_append [simp]: "download_dirs (xs @ ys) = download_dirs xs @ download_dirs ys"
  by (simp add: download_dirs_def)
lemma suspensions_append [simp]: "suspensions (xs @ ys) = suspensions xs @ suspensions ys"
  by (simp add: suspensions_def)
lemma successes_append [simp]: "successes (xs @ ys) = successes xs @ successes ys"
  by (simp add: successes_def)
lemma failures_append [simp]: "failures (xs @ ys) = failures xs @ failures ys"
  by (simp add: failures_def)
lemma attempted_simps [simp]:
  "attempted [] = []" "attempted (Download u p # cs) = u # attempted cs"
  "attempted (Suspend t # cs) = attempted cs"
  by (simp_all add: attempted_def)
lemma download_dirs_simps [simp]:
  "download_dirs [] = []" "download_dirs (Download u p # cs) = p # download_dirs cs"
  "download_dirs (Suspend t # cs) = download_dirs cs"
  by (simp_all add: download_dirs_def)
lemma suspensions_simps [simp]:
  "suspensions [] = []" "suspensions (Download u p # cs) = suspensions cs"
  "suspensions (Suspend t # cs) = t # suspensions cs"
  by (simp_all add: suspensions_def)
lemma successes_simps [simp]:
  "successes [] = []" "successes (success_entry x f # rs) = success_entry x f # successes rs"
  "successes (failed_entry x e # rs) = successes rs"
  by (simp_all add: successes_def success_entry_def failed_entry_def)
lemma failures_simps [simp]:
  "failures [] = []" "failures (success_entry x f # rs) = failures rs"
  "failures (failed_entry x e # rs) = failed_entry x e # failures rs"
  by (simp_all add: failures_def success_entry_def failed_entry_def)
lemma entry_item [simp]:
  "dr_item (success_entry x f) = x" "dr_item (failed_entry x e) = x"
  by (simp_all add: success_entry_def failed_entry_def)
lemma entry_status [simp]:
  "dr_status (success_entry x f) = Success" "dr_status (failed_entry x e) = Failed"
  by (simp_all add: success_entry_def failed_entry_def)

lemma successes_failures_length:
  "length (successes rs) + length (failures rs) = length rs"
proof (induction rs)
  case Nil then show ?case by simp
next
  case (Cons r rs)
  then show ?case by (cases "dr_status r") (simp_all add: successes_def failures_def)
qed

lemma print_n_numeral:
  "print_n env (numeral k) w =
     (case print_out env w of
        (Some e, w1) \<Rightarrow> (Some e, w1)
      | (None, w1) \<Rightarrow> print_n env (pred_numeral k) w1)"
  by (simp add: numeral_eq_Suc)

lemma print_n_quiet:
  "\<forall>w. fst (print_out env w) = None \<Longrightarrow> fst (print_n env k w) = None"
proof (induction k arbitrary: w)
  case 0 then show ?case by simp
next
  case (Suc k)
  obtain r w1 where p: "print_out env w = (r, w1)" by (cases "print_out env w")
  with Suc.prems have "r = None" by (metis fst_conv)
  with p Suc show ?case by simp
qed

lemma playlist_item_try_props:
  assumes "playlist_item_try env d delay n i v (rs, k, cs, w) = (out, rs1, k1, cs1, w1)"
  shows "\<exists>add c. rs1 = rs @ add \<and> cs1 = cs @ c \<and> k1 = k + length add
        \<and> (add = [] \<or> (\<exists>f. add = [success_entry v f]))
        \<and> set (download_dirs c) \<subseteq> {output_dir d}
        \<and> (attempted c = [] \<or> attempted c = [v_url v])
        \<and> (out = None \<longrightarrow> add \<noteq> [] \<and> attempted c = [v_url v])
        \<and> (quiet env delay \<longrightarrow> attempted c = [v_url v] \<and> (out = None \<or> add = []))"
proof -
  obtain p1 wa where p1: "print_n env 2 w = (p1, wa)" by (cases "print_n env 2 w")
  have q1: "quiet env delay \<Longrightarrow> p1 = None"
    using print_n_quiet[of env 2 w] p1 by (simp add: quiet_def)
  show ?thesis
  proof (cases p1)
    case (Some e)
    with assms p1 q1 show ?thesis by (auto simp: playlist_item_try_def)
  next
    case None
    obtain r wb where da: "download_audio env d wa (v_url v) None = (r, wb)"
      by (cases "download_audio env d wa (v_url v) None")
    show ?thesis
    proof (cases r)
      case (Inl e)
      with assms p1 None da show ?thesis by (auto simp: playlist_item_try_def)
    next
      case (Inr f)
      show ?thesis
      proof (cases "0 < delay \<and> i < n")
        case False
        with assms p1 None da Inr show ?thesis
          by (auto simp: playlist_item_try_def Let_def)
      next
        case True
        obtain p2 wc where p2: "print_out env wb = (p2, wc)" by (cases "print_out env wb")
        have q2: "quiet env delay \<Longrightarrow> p2 = None"
          using p2 by (metis quiet_def fst_conv)
        obtain s wd where s: "sleep env wc delay = (s, wd)" by (cases "sleep env wc delay")
        have q3: "quiet env delay \<Longrightarrow> s = None"
          using s by (metis quiet_def fst_conv)
        show ?thesis
        proof (cases p2)
          case (Some e)
          with assms p1 None da Inr True p2 q2 show ?thesis
            by (auto simp: playlist_item_try_def Let_def)
        next
          case pn: None
          with assms p1 None da Inr True p2 s q3 show ?thesis
            by (auto simp: playlist_item_try_def Let_def)
        qed
      qed
    qed
  qed
qed

lemma playlist_loop_props:
  assumes "download_playlist_loop env d delay n i vs (rs, k, cs, w) = (out, rs', k', cs', w')"
  shows "\<exists>add c. rs' = rs @ add \<and> cs' = cs @ c \<and> k' = k + length (successes add)
     \<and> set (download_dirs c) \<subseteq> {output_dir d}
     \<and> subseq (attempted c) (map v_url vs)
     \<and> (out = None \<longrightarrow> (\<exists>bs. add = concat bs \<and> list_all2 item_entries vs bs))
     \<and> (out = None \<and> quiet env delay \<longrightarrow>
          attempted c = map v_url vs \<and> map dr_item add = vs)"
  using assms
proof (induction vs arbitrary: i rs k cs w)
  case Nil
  then show ?case by simp
next
  case (Cons v vs)
  obtain o1 rs1 k1 cs1 w1 where
    t: "playlist_item_try env d delay n i v (rs, k, cs, w) = (o1, rs1, k1, cs1, w1)"
    by (metis prod_cases5)
  from playlist_item_try_props[OF t] obtain add1 c1 where
    rs1: "rs1 = rs @ add1" and cs1: "cs1 = cs @ c1" and k1: "k1 = k + length add1"
    and add1: "add1 = [] \<or> (\<exists>f. add1 = [success_entry v f])"
    and dirs1: "set (download_dirs c1) \<subseteq> {output_dir d}"
    and att1: "attempted c1 = [] \<or> attempted c1 = [v_url v]"
    and ok1: "o1 = None \<longrightarrow> add1 \<noteq> [] \<and> attempted c1 = [v_url v]"
    and quiet1: "quiet env delay \<longrightarrow> attempted c1 = [v_url v] \<and> (o1 = None \<or> add1 = [])"
    by blast
  have len1: "length (successes add1) = length add1" using add1 by auto
  have sub1: "subseq (attempted c1 @ xs) (v_url v # ys)" if "subseq xs ys" for xs ys
    using att1 that by auto
  show ?case
  proof (cases o1)
    case None
    with t Cons.prems have rest:
      "download_playlist_loop env d delay n (i + 1) vs (rs1, k1, cs1, w1) = (out, rs', k', cs', w')"
      by simp
    from Cons.IH[OF rest] obtain add c where
      a: "rs' = rs1 @ add" "cs' = cs1 @ c" "k' = k1 + length (successes add)"
      "set (download_dirs c) \<subseteq> {output_dir d}"
      "subseq (attempted c) (map v_url vs)"
      and blocks: "out = None \<longrightarrow> (\<exists>bs. add = concat bs \<and> list_all2 item_entries vs bs)"
      and exact: "out = None \<and> quiet env delay \<longrightarrow>
          attempted c = map v_url vs \<and> map dr_item add = vs"
      by blast
    from add1 ok1 None obtain f where f: "add1 = [success_entry v f]" by auto
    have b: "out = None \<longrightarrow>
        (\<exists>bs. add1 @ add = concat bs \<and> list_all2 item_entries (v # vs) bs)"
    proof
      assume "out = None"
      with blocks obtain bs where "add = concat bs" "list_all2 item_entries vs bs" by blast
      then have "add1 @ add = concat (add1 # bs) \<and> list_all2 item_entries (v # vs) (add1 # bs)"
        by (simp add: f)
      then show "\<exists>bs. add1 @ add = concat bs \<and> list_all2 item_entries (v # vs) bs" by blast
    qed
    have e: "out = None \<and> quiet env delay \<longrightarrow>
          attempted (c1 @ c) = map v_url (v # vs) \<and> map dr_item (add1 @ add) = v # vs"
      using exact ok1 None f by simp
    have main: "rs' = rs @ (add1 @ add) \<and> cs' = cs @ (c1 @ c)
        \<and> k' = k + length (successes (add1 @ add))
        \<and> set (download_dirs (c1 @ c)) \<subseteq> {output_dir d}
        \<and> subseq (attempted (c1 @ c)) (map v_url (v # vs))"
      using a rs1 cs1 k1 len1 dirs1 sub1[OF a(5)] by simp
    show ?thesis
      by (insert main b e, rule exI[of _ "add1 @ add"], rule exI[of _ "c1 @ c"], blast)
  next
    case (Some e)
    show ?thesis
    proof (cases "is_exception e")
      case False
      with t Some Cons.prems have
        "out = Some e" "rs' = rs1" "cs' = cs1" "k' = k1" by simp_all
      then have main: "rs' = rs @ add1 \<and> cs' = cs @ c1 \<and> k' = k + length (successes add1)
        \<and> set (download_dirs c1) \<subseteq> {output_dir d}
        \<and> subseq (attempted c1) (map v_url (v # vs))
        \<and> out \<noteq> None"
        using rs1 cs1 k1 len1 dirs1 sub1[of "[]" "map v_url vs"] by simp
      show ?thesis
        by (insert main, rule exI[of _ add1], rule exI[of _ c1], blast)
    next
      case True
      obtain p w2 where p: "print_out env w1 = (p, w2)" by (cases "print_out env w1")
      show ?thesis
      proof (cases p)
        case (Some e')
        with t \<open>o1 = Some e\<close> True p Cons.prems have
          "out = Some e'" "rs' = rs1" "cs' = cs1" "k' = k1" by simp_all
        then have main: "rs' = rs @ add1 \<and> cs' = cs @ c1 \<and> k' = k + length (successes add1)
          \<and> set (download_dirs c1) \<subseteq> {output_dir d}
          \<and> subseq (attempted c1) (map v_url (v # vs))
          \<and> out \<noteq> None"
          using rs1 cs1 k1 len1 dirs1 sub1[of "[]" "map v_url vs"] by simp
        show ?thesis
          by (insert main, rule exI[of _ add1], rule exI[of _ c1], blast)
      next
        case None
        with t \<open>o1 = Some e\<close> True p Cons.prems have rest:
          "download_playlist_loop env d delay n (i + 1) vs
             (rs1 @ [failed_entry v e], k1, cs1, w2) = (out, rs', k', cs', w')"
          by simp
        from Cons.IH[OF rest] obtain add c where
          a: "rs' = (rs1 @ [failed_entry v e]) @ add" "cs' = cs1 @ c"
          "k' = k1 + length (successes add)"
          "set (download_dirs c) \<subseteq> {output_dir d}"
          "subseq (attempted c) (map v_url vs)"
          and blocks: "out = None \<longrightarrow> (\<exists>bs. add = concat bs \<and> list_all2 item_entries vs bs)"
          and exact: "out = None \<and> quiet env delay \<longrightarrow>
              attempted c = map v_url vs \<and> map dr_item add = vs"
          by blast
        let ?b = "add1 @ [failed_entry v e]"
        have ib: "item_entries v ?b" using add1 by auto
        have b: "out = None \<longrightarrow>
            (\<exists>bs. ?b @ add = concat bs \<and> list_all2 item_entries (v # vs) bs)"
        proof
          assume "out = None"
          with blocks obtain bs where "add = concat bs" "list_all2 item_entries vs bs" by blast
          then have "?b @ add = concat (?b # bs) \<and> list_all2 item_entries (v # vs) (?b # bs)"
            using ib by simp
          then show "\<exists>bs. ?b @ add = concat bs \<and> list_all2 item_entries (v # vs) bs" by blast
        qed
        have ex: "out = None \<and> quiet env delay \<longrightarrow>
              attempted (c1 @ c) = map v_url (v # vs) \<and> map dr_item (?b @ add) = v # vs"
          using exact quiet1 \<open>o1 = Some e\<close> by simp
        have main: "rs' = rs @ (?b @ add) \<and> cs' = cs @ (c1 @ c)
            \<and> k' = k + length (successes (?b @ add))
            \<and> set (download_dirs (c1 @ c)) \<subseteq> {output_dir d}
            \<and> subseq (attempted (c1 @ c)) (map v_url (v # vs))"
          using a rs1 cs1 k1 len1 dirs1 sub1[OF a(5)] by simp
        show ?thesis
          by (insert main b ex, rule exI[of _ "?b @ add"], rule exI[of _ "c1 @ c"], blast)
      qed
    qed
  qed
qed

lemma multiple_item_try_props:
  assumes "multiple_item_try env d u (rs, cs, w) = (out, rs1, cs1, w1)"
  shows "\<exists>add c. rs1 = rs @ add \<and> cs1 = cs @ c
        \<and> (case out of None \<Rightarrow> (\<exists>f. add = [success_entry u f]) | Some e \<Rightarrow> add = [])
        \<and> set (download_dirs c) \<subseteq> {output_dir d}
        \<and> (attempted c = [] \<or> attempted c = [u])
        \<and> (out = None \<longrightarrow> attempted c = [u])
        \<and> ((\<forall>w. fst (print_out env w) = None) \<longrightarrow> attempted c = [u])"
proof -
  obtain p1 wa where p1: "print_out env w = (p1, wa)" by (cases "print_out env w")
  have q1: "\<forall>w. fst (print_out env w) = None \<Longrightarrow> p1 = None"
    using p1 by (metis fst_conv)
  show ?thesis
  proof (cases p1)
    case (Some e)
    with p1 have "\<not> (\<forall>w. fst (print_out env w) = None)"
      by (metis fst_conv option.distinct(1))
    with Some assms p1 show ?thesis by (auto simp: multiple_item_try_def)
  next
    case None
    obtain r wb where da: "download_audio env d wa u None = (r, wb)"
      by (cases "download_audio env d wa u None")
    show ?thesis
    proof (cases r)
      case (Inl e)
      with assms p1 None da show ?thesis by (auto simp: multiple_item_try_def)
    next
      case (Inr f)
      with assms p1 None da show ?thesis by (auto simp: multiple_item_try_def)
    qed
  qed
qed

lemma multiple_loop_props:
  assumes "download_multiple_loop env d urls (rs, cs, w) = (out, rs', cs', w')"
  shows "\<exists>add c. rs' = rs @ add \<and> cs' = cs @ c
     \<and> set (download_dirs c) \<subseteq> {output_dir d}
     \<and> subseq (attempted c) urls
     \<and> (out = None \<longrightarrow> map dr_item add = urls)
     \<and> (out = None \<and> (\<forall>w. fst (print_out env w) = None) \<longrightarrow> attempted c = urls)"
  using assms
proof (induction urls arbitrary: rs cs w)
  case Nil
  then show ?case by simp
next
  case (Cons u us)
  obtain o1 rs1 cs1 w1 where
    t: "multiple_item_try env d u (rs, cs, w) = (o1, rs1, cs1, w1)"
    by (metis prod_cases4)
  from multiple_item_try_props[OF t] obtain add1 c1 where
    rs1: "rs1 = rs @ add1" and cs1: "cs1 = cs @ c1"
    and add1: "case o1 of None \<Rightarrow> (\<exists>f. add1 = [success_entry u f]) | Some e \<Rightarrow> add1 = []"
    and dirs1: "set (download_dirs c1) \<subseteq> {output_dir d}"
    and att1: "attempted c1 = [] \<or> attempted c1 = [u]"
    and ok1: "o1 = None \<longrightarrow> attempted c1 = [u]"
    and quiet1: "(\<forall>w. fst (print_out env w) = None) \<longrightarrow> attempted c1 = [u]"
    by blast
  have sub1: "subseq (attempted c1 @ xs) (u # ys)" if "subseq xs ys" for xs ys
    using att1 that by auto
  show ?case
  proof (cases o1)
    case None
    with t Cons.prems have rest:
      "download_multiple_loop env d us (rs1, cs1, w1) = (out, rs', cs', w')"
      by simp
    from Cons.IH[OF rest] obtain add c where
      a: "rs' = rs1 @ add" "cs' = cs1 @ c"
      "set (download_dirs c) \<subseteq> {output_dir d}"
      "subseq (attempted c) us"
      and items: "out = None \<longrightarrow> map dr_item add = us"
      and exact: "out = None \<and> (\<forall>w. fst (print_out env w) = None) \<longrightarrow> attempted c = us"
      by blast
    from add1 None obtain f where f: "add1 = [success_entry u f]" by auto
    have b: "out = None \<longrightarrow> map dr_item (add1 @ add) = u # us"
      using items f by simp
    have e: "out = None \<and> (\<forall>w. fst (print_out env w) = None) \<longrightarrow>
          attempted (c1 @ c) = u # us"
      using exact ok1 None by simp
    have main: "rs' = rs @ (add1 @ add) \<and> cs' = cs @ (c1 @ c)
        \<and> set (download_dirs (c1 @ c)) \<subseteq> {output_dir d}
        \<and> subseq (attempted (c1 @ c)) (u # us)"
      using a rs1 cs1 dirs1 sub1[OF a(4)] by simp
    show ?thesis
      by (insert main b e, rule exI[of _ "add1 @ add"], rule exI[of _ "c1 @ c"], blast)
  next
    case (Some e)
    with add1 have add1_nil: "add1 = []" by simp
    show ?thesis
    proof (cases "is_exception e")
      case False
      with t Some Cons.prems have
        "out = Some e" "rs' = rs1" "cs' = cs1" by simp_all
      then have main: "rs' = rs @ add1 \<and> cs' = cs @ c1
        \<and> set (download_dirs c1) \<subseteq> {output_dir d}
        \<and> subseq (attempted c1) (u # us)
        \<and> out \<noteq> None"
        using rs1 cs1 dirs1 sub1[of "[]" us] by simp
      show ?thesis
        by (insert main, rule exI[of _ add1], rule exI[of _ c1], blast)
    next
      case True
      obtain p w2 where p: "print_out env w1 = (p, w2)" by (cases "print_out env w1")
      show ?thesis
      proof (cases p)
        case (Some e')
        with t \<open>o1 = Some e\<close> True p Cons.prems have
          "out = Some e'" "rs' = rs1" "cs' = cs1" by simp_all
        then have main: "rs' = rs @ add1 \<and> cs' = cs @ c1
          \<and> set (download_dirs c1) \<subseteq> {output_dir d}
          \<and> subseq (attempted c1) (u # us)
          \<and> out \<noteq> None"
          using rs1 cs1 dirs1 sub1[of "[]" us] by simp
        show ?thesis
          by (insert main, rule exI[of _ add1], rule exI[of _ c1], blast)
      next
        case None
        with t \<open>o1 = Some e\<close> True p Cons.prems have rest:
          "download_multiple_loop env d us (rs1 @ [failed_entry u e], cs1, w2) =
             (out, rs', cs', w')"
          by simp
        from Cons.IH[OF rest] obtain add c where
          a: "rs' = (rs1 @ [failed_entry u e]) @ add" "cs' = cs1 @ c"
          "set (download_dirs c) \<subseteq> {output_dir d}"
          "subseq (attempted c) us"
          and items: "out = None \<longrightarrow> map dr_item add = us"
          and exact: "out = None \<and> (\<forall>w. fst (print_out env w) = None) \<longrightarrow> attempted c = us"
          by blast
        let ?b = "[failed_entry u e]"
        have b: "out = None \<longrightarrow> map dr_item (?b @ add) = u # us"
          using items by simp
        have ex: "out = None \<and> (\<forall>w. fst (print_out env w) = None) \<longrightarrow>
              attempted (c1 @ c) = u # us"
          using exact quiet1 by simp
        have main: "rs' = rs @ (?b @ add) \<and> cs' = cs @ (c1 @ c)
            \<and> set (download_dirs (c1 @ c)) \<subseteq> {output_dir d}
            \<and> subseq (attempted (c1 @ c)) (u # us)"
          using a rs1 cs1 add1_nil dirs1 sub1[OF a(4)] by simp
        show ?thesis
          by (insert main b ex, rule exI[of _ "?b @ add"], rule exI[of _ "c1 @ c"], blast)
      qed
    qed
  qed
qed

lemma download_playlist_InrE:
  assumes "download_playlist env d w url max_videos delay = (Inr r, d', cs, w')"
  obtains info w0 w1 w5 rs k w6 where
    "is_playlist_url url"
    "print_out env w = (None, w0)"
    "get_playlist_info env w0 url = (Inr info, w1)"
    "download_playlist_loop env
           (d\<lparr>output_dir := path_join (output_dir d) (sanitize_filename (pl_title info)),
              outtmpl := default_outtmpl
                (path_join (output_dir d) (sanitize_filename (pl_title info)))\<rparr>)
           delay (length (limit_videos max_videos (pl_videos info))) 1
           (limit_videos max_videos (pl_videos info)) ([], 0, [], w5) = (None, rs, k, cs, w6)"
    "r = \<lparr>rep_playlist_info = info, rep_results = rs, rep_successful_downloads = k,
                 rep_total_videos = length (limit_videos max_videos (pl_videos info)),
                 rep_output_directory =
                   path_join (output_dir d) (sanitize_filename (pl_title info))\<rparr>"
    "d' = d\<lparr>outtmpl := default_outtmpl (output_dir d)\<rparr>"
  using assms
  by (auto simp: download_playlist_def download_playlist_body_def Let_def
      split: if_splits prod.splits sum.splits option.splits)



lemma download_playlist_run:
  assumes "is_playlist_url url"
    and "print_out env w = (None, w)"
    and "get_playlist_info env w url = (Inr info, w1)"
    and "print_n env 3 w1 = (None, w1)"
    and "print_out env w1 = (None, w1)"
    and "mkdir env w1 (path_join (output_dir d) (sanitize_filename (pl_title info))) = (None, w1)"
    and "download_playlist_loop env
           (d\<lparr>output_dir := path_join (output_dir d) (sanitize_filename (pl_title info)),
              outtmpl := default_outtmpl
                (path_join (output_dir d) (sanitize_filename (pl_title info)))\<rparr>)
           delay (length (limit_videos max_videos (pl_videos info))) 1
           (limit_videos max_videos (pl_videos info)) ([], 0, [], w1) = (out, rs, k, cs, w3)"
    and "out = None \<Longrightarrow> print_n env 5 w3 = (None, w3)"
  shows "download_playlist env d w url max_videos delay =
     (case out of
        None \<Rightarrow>
          (Inr \<lparr>rep_playlist_info = info, rep_results = rs, rep_successful_downloads = k,
                 rep_total_videos = length (limit_videos max_videos (pl_videos info)),
                 rep_output_directory =
                   path_join (output_dir d) (sanitize_filename (pl_title info))\<rparr>,
           d\<lparr>outtmpl := default_outtmpl (output_dir d)\<rparr>, cs, w3)
      | Some e \<Rightarrow>
          if is_exception e
          then (Inl (Exception (''Playlist download failed: '' @ str_exn e)),
                d\<lparr>outtmpl := default_outtmpl (output_dir d)\<rparr>, cs, w3)
          else (Inl e,
                d\<lparr>output_dir := path_join (output_dir d) (sanitize_filename (pl_title info)),
                   outtmpl := default_outtmpl
                     (path_join (output_dir d) (sanitize_filename (pl_title info)))\<rparr>,
                cs, w3))"
proof (cases out)
  case None
  with assms show ?thesis
    by (simp add: download_playlist_def download_playlist_body_def Let_def)
next
  case (Some e)
  with assms(1-7) show ?thesis
    by (simp add: download_playlist_def download_playlist_body_def Let_def)
qed



lemma download_playlist_processed:
  assumes "download_playlist env d w url max_videos delay = (Inr r, d', cs, w')"
  shows "fst (get_playlist_info env (snd (print_out env w)) url) = Inr (rep_playlist_info r)
     \<and> processed env delay r cs (limit_videos max_videos (pl_videos (rep_playlist_info r)))
     \<and> rep_successful_downloads r = length (successes (rep_results r))"
proof -
  from assms obtain info w0 w1 w5 rs k w6 d1 where
    p: "print_out env w = (None, w0)" and
    g: "get_playlist_info env w0 url = (Inr info, w1)" and
    loop: "download_playlist_loop env d1 delay
       (length (limit_videos max_videos (pl_videos info))) 1
       (limit_videos max_videos (pl_videos info)) ([], 0, [], w5) = (None, rs, k, cs, w6)"
    and r: "r = \<lparr>rep_playlist_info = info, rep_results = rs, rep_successful_downloads = k,
                 rep_total_videos = length (limit_videos max_videos (pl_videos info)),
                 rep_output_directory =
                   path_join (output_dir d) (sanitize_filename (pl_title info))\<rparr>"
    by (rule download_playlist_InrE)
  from playlist_loop_props[OF loop] obtain add c where
    "rs = [] @ add" "cs = [] @ c" "k = 0 + length (successes add)"
    "subseq (attempted c) (map v_url (limit_videos max_videos (pl_videos info)))"
    "\<exists>bs. add = concat bs \<and> list_all2 item_entries (limit_videos max_videos (pl_videos info)) bs"
    "quiet env delay \<longrightarrow>
       attempted c = map v_url (limit_videos max_videos (pl_videos info))
       \<and> map dr_item add = limit_videos max_videos (pl_videos info)"
    by blast
  then show ?thesis using p g r by (simp add: processed_def)
qed


lemma multiple_one_entry_per_item:
  assumes "download_multiple env d w urls = (Inr results, cs, w')"
  shows "map dr_item results = urls
     \<and> subseq (attempted cs) urls
     \<and> ((\<forall>w. fst (print_out env w) = None) \<longrightarrow> attempted cs = urls)"
proof -
  from assms obtain rs where
    loop: "download_multiple_loop env d urls ([], [], w) = (None, rs, cs, w')"
    and rs: "results = rs"
    by (auto simp: download_multiple_def split: prod.splits option.splits)
  from multiple_loop_props[OF loop] show ?thesis using rs by auto
qed

lemma playlist_report_when_quiet:
  assumes "download_playlist env d w url max_videos delay = (Inr r, d', cs, w')"
    and "quiet env delay"
  shows "map dr_item (rep_results r) = limit_videos max_videos (pl_videos (rep_playlist_info r))
     \<and> attempted cs = map v_url (limit_videos max_videos (pl_videos (rep_playlist_info r)))
     \<and> rep_successful_downloads r = length (successes (rep_results r))
     \<and> rep_total_videos r = length (rep_results r)
     \<and> rep_successful_downloads r + length (failures (rep_results r)) = rep_total_videos r"
proof -
  note p = download_playlist_processed[OF assms(1)]
  from p assms(2) have
    items: "map dr_item (rep_results r) =
       limit_videos max_videos (pl_videos (rep_playlist_info r))"
    and att: "attempted cs = map v_url (limit_videos max_videos (pl_videos (rep_playlist_info r)))"
    and total: "rep_total_videos r = length (limit_videos max_videos (pl_videos (rep_playlist_info r)))"
    and k: "rep_successful_downloads r = length (successes (rep_results r))"
    by (simp_all add: processed_def)
  from items have "length (rep_results r) =
      length (limit_videos max_videos (pl_videos (rep_playlist_info r)))"
    by (metis length_map)
  with total have len: "rep_total_videos r = length (rep_results r)" by simp
  show ?thesis
    using items att k len successes_failures_length[of "rep_results r"] by simp
qed

lemma playlist_item_try_suspensions:
  assumes "playlist_item_try env d delay n i v (rs, k, cs, w) = (out, rs1, k1, cs1, w1)"
    and "quiet env delay"
  shows "suspensions cs1 =
     suspensions cs @ (if out = None \<and> 0 < delay \<and> i < n then [delay] else [])"
proof -
  obtain p1 wa where p1: "print_n env 2 w = (p1, wa)" by (cases "print_n env 2 w")
  have q1: "p1 = None"
    using print_n_quiet[of env 2 w] p1 assms(2) by (simp add: quiet_def)
  obtain r wb where da: "download_audio env d wa (v_url v) None = (r, wb)"
    by (cases "download_audio env d wa (v_url v) None")
  show ?thesis
  proof (cases r)
    case (Inl e)
    with assms(1) p1 q1 da show ?thesis by (auto simp: playlist_item_try_def)
  next
    case (Inr f)
    show ?thesis
    proof (cases "0 < delay \<and> i < n")
      case False
      with assms(1) p1 q1 da Inr show ?thesis
        by (auto simp: playlist_item_try_def Let_def)
    next
      case True
      obtain p2 wc where p2: "print_out env wb = (p2, wc)" by (cases "print_out env wb")
      have q2: "p2 = None" using p2 assms(2) by (metis quiet_def fst_conv)
      obtain s wd where s: "sleep env wc delay = (s, wd)" by (cases "sleep env wc delay")
      have q3: "s = None" using s assms(2) by (metis quiet_def fst_conv)
      from assms(1) p1 q1 da Inr True p2 q2 s q3 show ?thesis
        by (auto simp: playlist_item_try_def Let_def)
    qed
  qed
qed

lemma successes_butlast_failed:
  "successes (butlast (failed_entry v e # rs)) = successes (butlast rs)"
  by (cases rs) simp_all

lemma suspensions_count:
  assumes "download_playlist_loop env d delay n i vs (rs, k, cs, w) = (None, rs', k', cs', w')"
    and "quiet env delay" and "0 < delay" and "i + length vs = Suc n"
  shows "\<exists>add. rs' = rs @ add \<and>
     suspensions cs' = suspensions cs @ replicate (length (successes (butlast add))) delay"
  using assms
proof (induction vs arbitrary: i rs k cs w)
  case Nil
  then show ?case by simp
next
  case (Cons v vs)
  note q = Cons.prems(2)
  obtain o1 rs1 k1 cs1 w1 where
    t: "playlist_item_try env d delay n i v (rs, k, cs, w) = (o1, rs1, k1, cs1, w1)"
    by (metis prod_cases5)
  from playlist_item_try_props[OF t] q obtain add1 where
    rs1: "rs1 = rs @ add1"
    and add1: "add1 = [] \<or> (\<exists>f. add1 = [success_entry v f])"
    and ok1: "o1 = None \<longrightarrow> add1 \<noteq> []"
    and quiet1: "o1 = None \<or> add1 = []"
    by blast
  note s1 = playlist_item_try_suspensions[OF t q]
  have next_i: "(i + 1) + length vs = Suc n" using Cons.prems(4) by simp
  show ?case
  proof (cases o1)
    case None
    with t Cons.prems(1) have rest:
      "download_playlist_loop env d delay n (i + 1) vs (rs1, k1, cs1, w1) =
         (None, rs', k', cs', w')"
      by simp
    from Cons.IH[OF rest q Cons.prems(3) next_i] obtain add2 where
      a2: "rs' = rs1 @ add2"
      and s2: "suspensions cs' =
         suspensions cs1 @ replicate (length (successes (butlast add2))) delay"
      by blast
    from playlist_loop_props[OF rest] q obtain add2' where
      "rs' = rs1 @ add2'" "map dr_item add2' = vs" by blast
    with a2 have "map dr_item add2 = vs" by simp
    then have len2: "length add2 = length vs" by (metis length_map)
    from add1 ok1 None obtain f where f: "add1 = [success_entry v f]" by auto
    have "suspensions cs' =
        suspensions cs @ replicate (length (successes (butlast (add1 @ add2)))) delay"
    proof (cases vs)
      case Nil
      then have "add2 = []" using len2 by simp
      moreover have "\<not> i < n" using Cons.prems(4) Nil by simp
      ultimately show ?thesis using s1 s2 None f by simp
    next
      case (Cons v' vs')
      then have ne: "add2 \<noteq> []" using len2 by auto
      have "i < n" using Cons.prems(4) Cons by simp
      then show ?thesis using s1 s2 None f ne Cons.prems(3) by (simp add: butlast_append)
    qed
    moreover have "rs' = rs @ (add1 @ add2)" using a2 rs1 by simp
    ultimately show ?thesis by blast
  next
    case (Some e)
    with quiet1 have add1_nil: "add1 = []" by simp
    from s1 Some have s1': "suspensions cs1 = suspensions cs" by simp
    have exc: "is_exception e"
    proof (rule ccontr)
      assume "\<not> is_exception e"
      with t Some Cons.prems(1) show False by simp
    qed
    obtain p w2 where p: "print_out env w1 = (p, w2)" by (cases "print_out env w1")
    have pn: "p = None"
    proof (cases p)
      case None then show ?thesis .
    next
      case (Some e')
      with t \<open>o1 = Some e\<close> exc p Cons.prems(1) show ?thesis by simp
    qed
    with t Some exc p Cons.prems(1) have rest:
      "download_playlist_loop env d delay n (i + 1) vs
         (rs1 @ [failed_entry v e], k1, cs1, w2) = (None, rs', k', cs', w')"
      by simp
    from Cons.IH[OF rest q Cons.prems(3) next_i] obtain add2 where
      a2: "rs' = (rs1 @ [failed_entry v e]) @ add2"
      and s2: "suspensions cs' =
         suspensions cs1 @ replicate (length (successes (butlast add2))) delay"
      by blast
    have "suspensions cs' =
        suspensions cs @ replicate (length (successes (butlast (failed_entry v e # add2)))) delay"
      using s2 s1' by (simp only: successes_butlast_failed)
    moreover have "rs' = rs @ (failed_entry v e # add2)" using a2 rs1 add1_nil by simp
    ultimately show ?thesis by blast
  qed
qed

text \<open>
  What the code does in a quiet environment: with a positive delay, one pause follows
  each successful download other than that of the last item, and none follows a failed
  one.
\<close>

lemma playlist_suspensions:
  assumes "download_playlist env d w url max_videos delay = (Inr r, d', cs, w')"
    and "0 < delay" and "quiet env delay"
  shows "suspensions cs = replicate (length (successes (butlast (rep_results r)))) delay"
proof -
  from assms(1) obtain info rs k d1 w5 w6 where
    loop: "download_playlist_loop env d1 delay
       (length (limit_videos max_videos (pl_videos info))) 1
       (limit_videos max_videos (pl_videos info)) ([], 0, [], w5) = (None, rs, k, cs, w6)"
    and r: "r = \<lparr>rep_playlist_info = info, rep_results = rs, rep_successful_downloads = k,
                 rep_total_videos = length (limit_videos max_videos (pl_videos info)),
                 rep_output_directory =
                   path_join (output_dir d) (sanitize_filename (pl_title info))\<rparr>"
    by (rule download_playlist_InrE)
  from suspensions_count[OF loop assms(3) assms(2)] show ?thesis by (simp add: r)
qed


lemma init_outtmpl:
  "init env w dir = (Inr d, w1) \<Longrightarrow> output_dir d = dir \<and> outtmpl d = default_outtmpl dir"
  by (auto simp: init_def split: prod.splits option.splits)

text \<open>
  Claim C9, as amended. When the extractor answers, \<open>get_playlist_info\<close> fails if the answer
  has no \<^verbatim>\<open>entries\<close> key; otherwise it succeeds and returns the entries that are not
  \<open>None\<close>, in the extractor's order, whatever their number.
\<close>

theorem playlist_entries_filtered:
  assumes "is_playlist_url url"
    and "ydl_playlist_info env w url = (Inr info, w1)"
  shows "(rp_entries info = None \<longrightarrow>
            get_playlist_info env w url =
              (Inl (Exception ''Failed to get playlist info: No videos found in playlist''), w1))
     \<and> (\<forall>entries. rp_entries info = Some entries \<longrightarrow>
            (\<exists>p. get_playlist_info env w url = (Inr p, w1)
               \<and> pl_videos p = map video_of_entry [e. Some e \<leftarrow> entries]
               \<and> pl_video_count p = length (pl_videos p)))"
  using assms by (simp add: get_playlist_info_def collect_videos_acc Let_def)

section \<open>The guards of the two operations\<close>

text \<open>
  The two guards that \<open>classify_locator\<close> combines are those of the operations: each
  operation raises its \<^verbatim>\<open>ValueError\<close> exactly when its pattern test fails, every other
  exception being wrapped into \<^verbatim>\<open>Exception\<close>.
\<close>

lemma download_audio_handler_wraps: "\<exists>m. download_audio_handler e = Exception m"
  by (cases e) simp_all

lemma download_audio_guard:
  "(\<exists>m w'. download_audio env d w url name = (Inl (ValueError m), w')) \<longleftrightarrow>
     \<not> is_valid_youtube_url url"
proof (cases "is_valid_youtube_url url")
  case False
  then show ?thesis by (simp add: download_audio_def)
next
  case True
  obtain r w1 where b: "download_audio_body env d w url name = (r, w1)"
    by (cases "download_audio_body env d w url name")
  show ?thesis
  proof (cases r)
    case (Inl e)
    then show ?thesis
      using True b download_audio_handler_wraps[of e] by (auto simp: download_audio_def)
  next
    case (Inr f)
    then show ?thesis using True b by (simp add: download_audio_def)
  qed
qed

lemma download_playlist_guard:
  "(\<exists>m d' cs w'. download_playlist env d w url max_videos delay =
       (Inl (ValueError m), d', cs, w')) \<longleftrightarrow> \<not> is_playlist_url url"
  by (auto simp: download_playlist_def split: prod.splits sum.splits)

text \<open>
  Claim C1. A locator is classified \<open>Collection\<close> exactly when a playlist pattern is found
  in it, \<open>SingleItem\<close> exactly when none is and the video pattern matches, and raises the
  \<^verbatim>\<open>ValueError\<close> exactly when neither does; so no locator has both kinds and every
  locator has one of the three outcomes.
\<close>

theorem classification_exclusive_exhaustive:
  "(classify_locator False url = Inr Collection \<longleftrightarrow> is_playlist_url url)
   \<and> (classify_locator False url = Inr SingleItem \<longleftrightarrow>
        \<not> is_playlist_url url \<and> is_valid_youtube_url url)
   \<and> (classify_locator False url = Inl (ValueError ''Invalid YouTube URL provided'') \<longleftrightarrow>
        \<not> is_playlist_url url \<and> \<not> is_valid_youtube_url url)
   \<and> \<not> (classify_locator False url = Inr Collection \<and>
          classify_locator False url = Inr SingleItem)
   \<and> (classify_locator False url = Inr Collection
        \<or> classify_locator False url = Inr SingleItem
        \<or> classify_locator False url = Inl (ValueError ''Invalid YouTube URL provided''))"
  by (auto simp: classify_locator_def)

section \<open>Worked examples\<close>

lemma repeat_n_numeral: "repeat_n (numeral k) r = Cat r (repeat_n (pred_numeral k) r)"
  by (simp add: numeral_eq_Suc)

lemmas regex_defs = is_valid_youtube_url_def is_playlist_url_def youtube_regex_def
  playlist_patterns_def literal_def optional_def one_or_more_def any_char_def one_of_def
  none_of_def id_char_def ustr_def repeat_n_numeral

lemma playlist_url_is_playlist: "is_playlist_url playlist_url"
  by (simp add: playlist_url_def regex_defs)

lemma watch_a_valid: "is_valid_youtube_url (watch_url ''abc12345678'')"
  by (simp add: watch_url_def regex_defs)

lemma watch_b_valid: "is_valid_youtube_url (watch_url ''bbbbbbbbbbb'')"
  by (simp add: watch_url_def regex_defs)

lemma watch_c_valid: "is_valid_youtube_url (watch_url ''ccccccccccc'')"
  by (simp add: watch_url_def regex_defs)

lemma sanitize_track: "sanitize_filename (ustr ''Track'') = ustr ''Track''"
  by (simp add: sanitize_filename_def replace_invalid_def invalid_chars_def ustr_def
        py_strip_def py_isspace_def underscore_def)

lemma sanitize_mix: "sanitize_filename (ustr ''My: Mix'') = ustr ''My_ Mix''"
  by (simp add: sanitize_filename_def replace_invalid_def invalid_chars_def ustr_def
        py_strip_def py_isspace_def underscore_def)

lemma print_n_id: "\<forall>w. print_out env w = (None, w) \<Longrightarrow> print_n env k w = (None, w)"
  by (induction k) simp_all

lemma demo_fields:
  "mkdir (demo_env entries bad) w p = (None, w)"
  "ydl_video_info (demo_env entries bad) w url =
     (Inr \<lparr>rv_title = Some (ustr ''Track''), rv_duration = Some 200,
           rv_uploader = Some (ustr ''Artist'')\<rparr>, Suc w)"
  "ydl_playlist_info (demo_env entries bad) w url = (Inr (demo_playlist entries), Suc w)"
  "ydl_download (demo_env entries bad) w tmpl url =
     (if url \<in> set bad then Some (DownloadError ''HTTP Error 403: Forbidden'') else None, Suc w)"
  "path_exists (demo_env entries bad) w p = True"
  "sleep (demo_env entries bad) w t =
     (if 9223372036 < t then (Some out_of_range, w) else (None, Suc w))"
  "print_out (demo_env entries bad) w = (None, w)"
  by (simp_all add: demo_env_def)



lemma demo_print_n: "print_n (demo_env entries bad) k w = (None, w)"
  by (rule print_n_id) (simp add: demo_fields)



lemma demo_download_ok:
  "is_valid_youtube_url u \<Longrightarrow> u \<notin> set bad \<Longrightarrow>
     download_audio (demo_env entries bad) d w u None =
       (Inr (path_join (output_dir d) (ustr ''Track'' @ ustr ''.mp3'')), Suc (Suc w))"
  by (simp add: download_audio_def download_audio_body_def get_video_info_def demo_print_n
      report_success_def demo_fields target_base_name_def dict_get_def sanitize_track)

lemma demo_download_fail:
  "is_valid_youtube_url u \<Longrightarrow> u \<in> set bad \<Longrightarrow>
     download_audio (demo_env entries bad) d w u None =
       (Inl (Exception (''yt-dlp download error: '' @ ''HTTP Error 403: Forbidden'')), Suc (Suc w))"
  by (simp add: download_audio_def download_audio_body_def get_video_info_def demo_print_n
      report_success_def demo_fields target_base_name_def dict_get_def sanitize_track)



lemma playlist_url_not_item: "\<not> is_valid_youtube_url playlist_url"
  by (simp add: playlist_url_def regex_defs)
lemma watch_a_not_playlist: "\<not> is_playlist_url (watch_url ''abc12345678'')"
  by (simp add: watch_url_def regex_defs)

lemma demo_collect: "collect_videos demo_entries [] = [video_a, video_b, video_c]"
  by (simp add: demo_entries_def video_of_entry_def video_a_def video_b_def video_c_def
      watch_url_def dict_get_def)

lemma demo_get_playlist_info:
  "get_playlist_info (demo_env (Some demo_entries) bad) w playlist_url =
     (Inr (demo_info [video_a, video_b, video_c]), Suc w)"
  by (simp add: get_playlist_info_def playlist_url_is_playlist demo_fields demo_playlist_def
      demo_collect demo_info_def dict_get_def)

lemma demo_get_playlist_info_empty:
  "get_playlist_info (demo_env (Some []) bad) w playlist_url = (Inr (demo_info []), Suc w)"
  by (simp add: get_playlist_info_def playlist_url_is_playlist demo_fields demo_playlist_def
      demo_info_def dict_get_def)

lemma demo_get_playlist_info_missing:
  "get_playlist_info (demo_env None bad) w playlist_url =
     (Inl (Exception ''Failed to get playlist info: No videos found in playlist''), Suc w)"
  by (simp add: get_playlist_info_def playlist_url_is_playlist demo_fields demo_playlist_def)



lemma demo_playlist_dir:
  "path_join (output_dir demo_downloader) (sanitize_filename (pl_title (demo_info vs))) = demo_dir"
  by (simp add: demo_info_def sanitize_mix demo_downloader_def demo_dir_def path_join_def)
    (simp add: ustr_def)

lemma track_path: "path_join demo_dir (ustr ''Track'' @ ustr ''.mp3'') = track_file"
  by (simp add: path_join_def demo_dir_def track_file_def ustr_def)

lemma watch_distinct:
  "watch_url ''bbbbbbbbbbb'' \<noteq> watch_url ''abc12345678''"
  "watch_url ''ccccccccccc'' \<noteq> watch_url ''abc12345678''"
  by (simp_all add: watch_url_def ustr_def)

lemma demo_restored:
  "demo_downloader\<lparr>outtmpl := default_outtmpl (output_dir demo_downloader)\<rparr> = demo_downloader"
  by (simp add: demo_downloader_def)

lemma demo_limit_none:
  "limit_videos None (pl_videos (demo_info vs)) = vs"
  by (simp add: limit_videos_def demo_info_def)

lemma demo_limit_two:
  "limit_videos (Some 2) (pl_videos (demo_info [video_a, video_b, video_c])) = [video_a, video_b]"
  by (simp add: limit_videos_def demo_info_def)


lemma demo_loop_two:
  "download_playlist_loop (demo_env entries [watch_url ''abc12345678''])
     (demo_downloader\<lparr>output_dir := demo_dir, outtmpl := default_outtmpl demo_dir\<rparr>)
     1 (length [video_a, video_b]) 1 [video_a, video_b] ([], 0, [], Suc 0) =
   (None, [failed_entry video_a forbidden, success_entry video_b track_file], 1,
    [Download (watch_url ''abc12345678'') demo_dir,
     Download (watch_url ''bbbbbbbbbbb'') demo_dir], 5)"
  by (simp add: playlist_item_try_def demo_print_n demo_fields
      video_a_def video_b_def demo_download_ok demo_download_fail
      watch_a_valid watch_b_valid watch_distinct track_path forbidden_def)

lemma out_of_range_caught: "is_exception out_of_range"
  by (simp add: out_of_range_def)

lemma demo_loop_overflow_two:
  "download_playlist_loop (demo_env entries [])
     (demo_downloader\<lparr>output_dir := demo_dir, outtmpl := default_outtmpl demo_dir\<rparr>)
     10000000000 (length [video_a, video_b]) 1 [video_a, video_b] ([], 0, [], Suc 0) =
   (None, [success_entry video_a track_file, failed_entry video_a out_of_range,
           success_entry video_b track_file], 2,
    [Download (watch_url ''abc12345678'') demo_dir, Suspend 10000000000,
     Download (watch_url ''bbbbbbbbbbb'') demo_dir], 5)"
  by (simp add: playlist_item_try_def demo_print_n demo_fields
      video_a_def video_b_def demo_download_ok
      watch_a_valid watch_b_valid track_path out_of_range_caught)

lemma demo_loop_overflow_three:
  "download_playlist_loop (demo_env entries [])
     (demo_downloader\<lparr>output_dir := demo_dir, outtmpl := default_outtmpl demo_dir\<rparr>)
     10000000000 (length [video_a, video_b, video_c]) 1 [video_a, video_b, video_c]
     ([], 0, [], Suc 0) =
   (None, [success_entry video_a track_file, failed_entry video_a out_of_range,
           success_entry video_b track_file, failed_entry video_b out_of_range,
           success_entry video_c track_file], 3,
    [Download (watch_url ''abc12345678'') demo_dir, Suspend 10000000000,
     Download (watch_url ''bbbbbbbbbbb'') demo_dir, Suspend 10000000000,
     Download (watch_url ''ccccccccccc'') demo_dir], 7)"
  by (simp add: playlist_item_try_def demo_print_n demo_fields
      video_a_def video_b_def video_c_def demo_download_ok
      watch_a_valid watch_b_valid watch_c_valid track_path out_of_range_caught)




lemma demo_run_two:
  "download_playlist (demo_env (Some demo_entries) [watch_url ''abc12345678''])
     demo_downloader 0 playlist_url (Some 2) 1 =
   (Inr \<lparr>rep_playlist_info = demo_info [video_a, video_b, video_c],
         rep_results = [failed_entry video_a forbidden, success_entry video_b track_file],
         rep_successful_downloads = 1, rep_total_videos = 2,
         rep_output_directory = demo_dir\<rparr>,
    demo_downloader,
    [Download (watch_url ''abc12345678'') demo_dir,
     Download (watch_url ''bbbbbbbbbbb'') demo_dir], 5)"
proof -
  let ?env = "demo_env (Some demo_entries) [watch_url ''abc12345678'']"
  let ?info = "demo_info [video_a, video_b, video_c]"
  have loop: "download_playlist_loop ?env
       (demo_downloader\<lparr>output_dir :=
            path_join (output_dir demo_downloader) (sanitize_filename (pl_title ?info)),
          outtmpl := default_outtmpl
            (path_join (output_dir demo_downloader) (sanitize_filename (pl_title ?info)))\<rparr>)
       1 (length (limit_videos (Some 2) (pl_videos ?info))) 1
       (limit_videos (Some 2) (pl_videos ?info)) ([], 0, [], Suc 0) =
     (None, [failed_entry video_a forbidden, success_entry video_b track_file], 1,
      [Download (watch_url ''abc12345678'') demo_dir,
       Download (watch_url ''bbbbbbbbbbb'') demo_dir], 5)"
    unfolding demo_playlist_dir demo_limit_two by (rule demo_loop_two)
  show ?thesis
    using download_playlist_run[OF playlist_url_is_playlist demo_fields(7)
        demo_get_playlist_info demo_print_n demo_fields(7) demo_fields(1) loop demo_print_n]
    unfolding demo_playlist_dir demo_limit_two demo_restored by simp
qed

lemma demo_run_overflow_two:
  "download_playlist (demo_env (Some demo_entries) []) demo_downloader 0 playlist_url
     (Some 2) 10000000000 =
   (Inr \<lparr>rep_playlist_info = demo_info [video_a, video_b, video_c],
         rep_results = [success_entry video_a track_file, failed_entry video_a out_of_range,
                        success_entry video_b track_file],
         rep_successful_downloads = 2, rep_total_videos = 2,
         rep_output_directory = demo_dir\<rparr>,
    demo_downloader,
    [Download (watch_url ''abc12345678'') demo_dir, Suspend 10000000000,
     Download (watch_url ''bbbbbbbbbbb'') demo_dir], 5)"
proof -
  let ?env = "demo_env (Some demo_entries) []"
  let ?info = "demo_info [video_a, video_b, video_c]"
  have loop: "download_playlist_loop ?env
       (demo_downloader\<lparr>output_dir :=
            path_join (output_dir demo_downloader) (sanitize_filename (pl_title ?info)),
          outtmpl := default_outtmpl
            (path_join (output_dir demo_downloader) (sanitize_filename (pl_title ?info)))\<rparr>)
       10000000000 (length (limit_videos (Some 2) (pl_videos ?info))) 1
       (limit_videos (Some 2) (pl_videos ?info)) ([], 0, [], Suc 0) =
     (None, [success_entry video_a track_file, failed_entry video_a out_of_range,
             success_entry video_b track_file], 2,
      [Download (watch_url ''abc12345678'') demo_dir, Suspend 10000000000,
       Download (watch_url ''bbbbbbbbbbb'') demo_dir], 5)"
    unfolding demo_playlist_dir demo_limit_two by (rule demo_loop_overflow_two)
  show ?thesis
    using download_playlist_run[OF playlist_url_is_playlist demo_fields(7)
        demo_get_playlist_info demo_print_n demo_fields(7) demo_fields(1) loop demo_print_n]
    unfolding demo_playlist_dir demo_limit_two demo_restored by simp
qed

lemma demo_run_overflow_three:
  "download_playlist (demo_env (Some demo_entries) []) demo_downloader 0 playlist_url
     None 10000000000 =
   (Inr \<lparr>rep_playlist_info = demo_info [video_a, video_b, video_c],
         rep_results = [success_entry video_a track_file, failed_entry video_a out_of_range,
                        success_entry video_b track_file, failed_entry video_b out_of_range,
                        success_entry video_c track_file],
         rep_successful_downloads = 3, rep_total_videos = 3,
         rep_output_directory = demo_dir\<rparr>,
    demo_downloader,
    [Download (watch_url ''abc12345678'') demo_dir, Suspend 10000000000,
     Download (watch_url ''bbbbbbbbbbb'') demo_dir, Suspend 10000000000,
     Download (watch_url ''ccccccccccc'') demo_dir], 7)"
proof -
  let ?env = "demo_env (Some demo_entries) []"
  let ?info = "demo_info [video_a, video_b, video_c]"
  have loop: "download_playlist_loop ?env
       (demo_downloader\<lparr>output_dir :=
            path_join (output_dir demo_downloader) (sanitize_filename (pl_title ?info)),
          outtmpl := default_outtmpl
            (path_join (output_dir demo_downloader) (sanitize_filename (pl_title ?info)))\<rparr>)
       10000000000 (length (limit_videos None (pl_videos ?info))) 1
       (limit_videos None (pl_videos ?info)) ([], 0, [], Suc 0) =
     (None, [success_entry video_a track_file, failed_entry video_a out_of_range,
             success_entry video_b track_file, failed_entry video_b out_of_range,
             success_entry video_c track_file], 3,
      [Download (watch_url ''abc12345678'') demo_dir, Suspend 10000000000,
       Download (watch_url ''bbbbbbbbbbb'') demo_dir, Suspend 10000000000,
       Download (watch_url ''ccccccccccc'') demo_dir], 7)"
    unfolding demo_playlist_dir demo_limit_none by (rule demo_loop_overflow_three)
  show ?thesis
    using download_playlist_run[OF playlist_url_is_playlist demo_fields(7)
        demo_get_playlist_info demo_print_n demo_fields(7) demo_fields(1) loop demo_print_n]
    unfolding demo_playlist_dir demo_limit_none demo_restored by simp
qed




lemma demo_run_missing:
  "download_playlist (demo_env None []) demo_downloader 0 playlist_url None 1 =
     (Inl (Exception (''Playlist download failed: '' @
             ''Failed to get playlist info: No videos found in playlist'')),
      demo_downloader, [], 1)"
  by (simp add: download_playlist_def download_playlist_body_def playlist_url_is_playlist
      demo_get_playlist_info_missing demo_fields)

text \<open>
  Claim C4. The claim is one pause between any two consecutive downloads, \<open>n - 1\<close> in all.
  Two items are attempted here with a delay of one second; the first download fails,
  the second succeeds, and no pause is made.
\<close>

theorem no_pause_after_failed_item:
  "download_playlist (demo_env (Some demo_entries) [watch_url ''abc12345678''])
     demo_downloader 0 playlist_url (Some 2) 1 =
   (Inr \<lparr>rep_playlist_info = demo_info [video_a, video_b, video_c],
         rep_results = [failed_entry video_a forbidden, success_entry video_b track_file],
         rep_successful_downloads = 1, rep_total_videos = 2,
         rep_output_directory = demo_dir\<rparr>,
    demo_downloader,
    [Download (watch_url ''abc12345678'') demo_dir,
     Download (watch_url ''bbbbbbbbbbb'') demo_dir], 5)
   \<and> suspensions [Download (watch_url ''abc12345678'') demo_dir,
                   Download (watch_url ''bbbbbbbbbbb'') demo_dir] = []"
  using demo_run_two by simp



text \<open>
  Claim C6. The claim is that the total of a report is the length of its results and that
  successes plus failures make the total. Two items are processed here with a delay of
  \<open>10\<^sup>1\<^sup>0\<close> seconds, which \<^verbatim>\<open>time.sleep\<close> rejects: the first download succeeds and its
  entry is appended, then the pause raises inside the same \<^verbatim>\<open>try\<close> and the handler
  appends a failed entry for the same video. The report has a total of 2, three results,
  and two successes plus one failure.
\<close>

theorem report_total_differs_from_results:
  "download_playlist (demo_env (Some demo_entries) []) demo_downloader 0 playlist_url
     (Some 2) 10000000000 =
   (Inr \<lparr>rep_playlist_info = demo_info [video_a, video_b, video_c],
         rep_results = [success_entry video_a track_file, failed_entry video_a out_of_range,
                        success_entry video_b track_file],
         rep_successful_downloads = 2, rep_total_videos = 2,
         rep_output_directory = demo_dir\<rparr>,
    demo_downloader,
    [Download (watch_url ''abc12345678'') demo_dir, Suspend 10000000000,
     Download (watch_url ''bbbbbbbbbbb'') demo_dir], 5)
   \<and> length [success_entry video_a track_file, failed_entry video_a out_of_range,
              success_entry video_b track_file] = 3
   \<and> length (successes [success_entry video_a track_file, failed_entry video_a out_of_range,
              success_entry video_b track_file]) = 2
   \<and> length (failures [success_entry video_a track_file, failed_entry video_a out_of_range,
              success_entry video_b track_file]) = 1"
  using demo_run_overflow_two by simp

text \<open>
  Claim C7. The claim is one entry per attempted item in both loops. Three items are
  processed here by the loop of \<open>download_playlist\<close> with a delay of \<open>10\<^sup>1\<^sup>0\<close> seconds:
  every download succeeds, the pause after the first and after the second raises, and
  the handler records the item, already entered as a success, as failed too. Three items
  are attempted and the results hold five entries, two for each of the first two videos.
\<close>

theorem two_entries_for_one_item:
  "download_playlist (demo_env (Some demo_entries) []) demo_downloader 0 playlist_url
     None 10000000000 =
   (Inr \<lparr>rep_playlist_info = demo_info [video_a, video_b, video_c],
         rep_results = [success_entry video_a track_file, failed_entry video_a out_of_range,
                        success_entry video_b track_file, failed_entry video_b out_of_range,
                        success_entry video_c track_file],
         rep_successful_downloads = 3, rep_total_videos = 3,
         rep_output_directory = demo_dir\<rparr>,
    demo_downloader,
    [Download (watch_url ''abc12345678'') demo_dir, Suspend 10000000000,
     Download (watch_url ''bbbbbbbbbbb'') demo_dir, Suspend 10000000000,
     Download (watch_url ''ccccccccccc'') demo_dir], 7)
   \<and> attempted [Download (watch_url ''abc12345678'') demo_dir, Suspend 10000000000,
        Download (watch_url ''bbbbbbbbbbb'') demo_dir, Suspend 10000000000,
        Download (watch_url ''ccccccccccc'') demo_dir] = map v_url [video_a, video_b, video_c]
   \<and> map dr_item [success_entry video_a track_file, failed_entry video_a out_of_range,
                   success_entry video_b track_file, failed_entry video_b out_of_range,
                   success_entry video_c track_file] =
       [video_a, video_a, video_b, video_b, video_c]"
  using demo_run_overflow_three by (simp add: video_a_def video_b_def video_c_def)



theorem playlist_entries_filtered_witness:
  "get_playlist_info (demo_env (Some demo_entries) []) 0 playlist_url =
     (Inr (demo_info [video_a, video_b, video_c]), 1)
   \<and> map video_of_entry [e. Some e \<leftarrow> demo_entries] = [video_a, video_b, video_c]
   \<and> get_playlist_info (demo_env None []) 0 playlist_url =
     (Inl (Exception ''Failed to get playlist info: No videos found in playlist''), 1)"
proof -
  have a: "ydl_playlist_info (demo_env entries []) 0 playlist_url =
      (Inr (demo_playlist entries), 1)" for entries
    by (simp add: demo_env_def)
  have b: "rp_entries (demo_playlist entries) = entries" for entries
    by (simp add: demo_playlist_def)
  from playlist_entries_filtered[OF playlist_url_is_playlist a, of "Some demo_entries"]
    playlist_entries_filtered[OF playlist_url_is_playlist a, of None]
    demo_get_playlist_info[of "[]" 0] demo_collect
  show ?thesis by (simp add: b collect_videos_acc)
qed

text \<open>
  An extractor answer whose \<^verbatim>\<open>entries\<close> list is present and empty is not an error:
  the descriptor has no videos.
\<close>

theorem empty_entries_do_not_fail:
  "get_playlist_info (demo_env (Some []) []) 0 playlist_url = (Inr (demo_info []), 1)
   \<and> pl_videos (demo_info []) = [] \<and> pl_video_count (demo_info []) = 0"
  using demo_get_playlist_info_empty[of "[]" 0] by (simp add: demo_info_def)

lemma plain_path: "path_join (output_dir demo_downloader) (ustr ''Track'' @ ustr ''.mp3'') = plain_file"
  by (simp add: path_join_def demo_downloader_def plain_file_def ustr_def)

lemma demo_multiple_run:
  "download_multiple (demo_env None [watch_url ''abc12345678'']) demo_downloader 0
     [watch_url ''abc12345678'', watch_url ''bbbbbbbbbbb''] =
     (Inr [failed_entry (watch_url ''abc12345678'') forbidden,
           success_entry (watch_url ''bbbbbbbbbbb'') plain_file],
      [Download (watch_url ''abc12345678'') (output_dir demo_downloader),
       Download (watch_url ''bbbbbbbbbbb'') (output_dir demo_downloader)], 4)"
  by (simp add: download_multiple_def multiple_item_try_def demo_fields demo_download_ok
      demo_download_fail watch_a_valid watch_b_valid watch_distinct plain_path forbidden_def)

lemma both_url_is_playlist: "is_playlist_url both_url"
  by (simp add: both_url_def regex_defs)

lemma both_url_is_item: "is_valid_youtube_url both_url"
  by (simp add: both_url_def regex_defs)

lemma other_url_not_playlist: "\<not> is_playlist_url other_url"
  by (simp add: other_url_def regex_defs)

lemma other_url_not_item: "\<not> is_valid_youtube_url other_url"
  by (simp add: other_url_def regex_defs)

theorem classification_exclusive_exhaustive_witness:
  "classify_locator False (watch_url ''abc12345678'') = Inr SingleItem
   \<and> classify_locator False playlist_url = Inr Collection
   \<and> classify_locator False both_url = Inr Collection
   \<and> classify_locator False other_url = Inl (ValueError ''Invalid YouTube URL provided'')"
  using classification_exclusive_exhaustive[of "watch_url ''abc12345678''"]
    classification_exclusive_exhaustive[of playlist_url]
    classification_exclusive_exhaustive[of both_url]
    classification_exclusive_exhaustive[of other_url]
    watch_a_valid watch_a_not_playlist playlist_url_is_playlist both_url_is_playlist
    other_url_not_playlist other_url_not_item
  by simp

end
